theory Spec2Isabelle
  imports Main "HOL-Library.Sublist"
begin

section \<open>Python values and exceptions\<close>

text \<open>
  An exception is kept as its class name and its \<open>str(e)\<close>. The handler of
  \<open>process_input\<close> is \<open>except Exception\<close>, so the model separates the classes that
  derive from \<open>Exception\<close> from those that derive from \<open>BaseException\<close> only
  (\<open>KeyboardInterrupt\<close>, \<open>SystemExit\<close>, \<open>asyncio.CancelledError\<close>). Two classes of
  the first kind have a meaning of their own in asynchronous code and are told by their
  names (an instance of a subclass goes under the name of the built-in class):
  \<open>StopAsyncIteration\<close>, by which \<open>__anext__\<close> ends an \<open>async for\<close>, and
  \<open>StopIteration\<close>, which no coroutine can raise: when it leaves the frame of a
  coroutine, Python replaces it by \<open>RuntimeError('coroutine raised StopIteration')\<close>.
\<close>

datatype exn = PyException string string | PyBaseException string string

fun is_exception :: "exn \<Rightarrow> bool" where
  "is_exception (PyException _ _) = True"
| "is_exception (PyBaseException _ _) = False"

fun str_of :: "exn \<Rightarrow> string" where
  "str_of (PyException _ m) = m"
| "str_of (PyBaseException _ m) = m"

fun is_stop_iteration :: "exn \<Rightarrow> bool" where
  "is_stop_iteration (PyException c _) = (c = ''StopIteration'')"
| "is_stop_iteration (PyBaseException _ _) = False"

fun is_stop_async_iteration :: "exn \<Rightarrow> bool" where
  "is_stop_async_iteration (PyException c _) = (c = ''StopAsyncIteration'')"
| "is_stop_async_iteration (PyBaseException _ _) = False"

definition leaving_coroutine :: "exn \<Rightarrow> exn" where
  "leaving_coroutine e =
     (if is_stop_iteration e then PyException ''RuntimeError'' ''coroutine raised StopIteration'' else e)"

text \<open>The result of an \<open>async def\<close>: the state, and the exception that leaves it, if any.\<close>

definition coroutine :: "'s \<times> exn option \<Rightarrow> 's \<times> exn option" where
  "coroutine res = (fst res, map_option leaving_coroutine (snd res))"

text \<open>
  The values the handlers probe are untyped in the source. A value is \<open>None\<close>, a
  \<open>str\<close>, or any other object, of which only the type name and the truth value matter
  here (an empty \<open>dict\<close> is \<open>PObj ''dict'' False\<close>).
\<close>

datatype pyval = PNone | PStr string | PObj string bool

fun truthy :: "pyval \<Rightarrow> bool" where
  "truthy PNone = False"
| "truthy (PStr s) = (s \<noteq> [])"
| "truthy (PObj _ b) = b"

fun type_name :: "pyval \<Rightarrow> string" where
  "type_name PNone = ''NoneType''"
| "type_name (PStr _) = ''str''"
| "type_name (PObj n _) = n"

definition no_attribute :: "string \<Rightarrow> string \<Rightarrow> exn" where
  "no_attribute ty attr =
     PyException ''AttributeError'' ([CHR 39] @ ty @ [CHR 39] @ '' object has no attribute '' @ [CHR 39] @ attr @ [CHR 39])"

definition cannot_concatenate :: "string \<Rightarrow> exn" where
  "cannot_concatenate ty =
     PyException ''TypeError'' (''can only concatenate str (not '' @ [CHR 34] @ ty @ [CHR 34] @ '') to str'')"

definition index_out_of_range :: exn where
  "index_out_of_range = PyException ''IndexError'' ''list index out of range''"

text \<open>
  \<open>str.strip()\<close> removes the characters for which \<open>str.isspace()\<close> holds from both
  ends. A \<open>char\<close> stands for a code point below 256; there the whitespace code points
  are 9 to 13, 28 to 32, 133 and 160.
\<close>

definition py_isspace :: "char \<Rightarrow> bool" where
  "py_isspace c = (let n = (of_char c :: nat) in
     (9 \<le> n \<and> n \<le> 13) \<or> (28 \<le> n \<and> n \<le> 32) \<or> n = 133 \<or> n = 160)"

definition py_strip :: "string \<Rightarrow> string" where
  "py_strip s = rev (dropWhile py_isspace (rev (dropWhile py_isspace s)))"

section \<open>Events, streams and nodes of the external agent run\<close>

text \<open>
  An event is probed with \<open>hasattr\<close>: each of \<open>delta\<close>, \<open>part\<close> and \<open>result\<close> is
  present or not, and when present it does or does not carry the inner attribute
  (\<open>content_delta\<close>, \<open>tool_name\<close>, \<open>content\<close>). A result payload is read as
  \<open>event.result.content.content[0].text\<close>.
\<close>

datatype delta_obj = ContentDelta pyval | OtherDelta

datatype part_obj = ToolCallPart string pyval | OtherPart

datatype segment = TextContent string | OtherContent string

datatype payload = CallToolResult "segment list" | OtherPayload string

datatype result_obj = ResultWithContent payload | ResultWithoutContent

record event =
  ev_delta :: "delta_obj option"
  ev_part :: "part_obj option"
  ev_result :: "result_obj option"

text \<open>
  An asynchronous iterator that ends is the list of what each \<open>await __anext__()\<close>
  does in the frame of the loop: it yields an item or raises; the end of the list is the
  iterator's own \<open>StopAsyncIteration\<close>. Nothing after a \<open>Raises\<close> is reached. A
  source is what \<open>async with ... as it\<close> gives: entering the context raises
  (\<open>Inl\<close>) or hands over the iterator (\<open>Inr\<close>). Leaving a context passes an
  exception of the body on and raises nothing of its own, as the context managers of
  \<open>contextlib\<close> do.
\<close>

datatype 'a item = Item 'a | Raises exn

type_synonym 'a source = "exn + 'a item list"

datatype node = ModelRequestNode "event source" | CallToolsNode "event source" | OtherNode string

fun is_model_request_node :: "node \<Rightarrow> bool" where
  "is_model_request_node (ModelRequestNode _) = True"
| "is_model_request_node _ = False"

fun is_call_tools_node :: "node \<Rightarrow> bool" where
  "is_call_tools_node (CallToolsNode _) = True"
| "is_call_tools_node _ = False"

fun node_stream :: "node \<Rightarrow> event source" where
  "node_stream (ModelRequestNode s) = s"
| "node_stream (CallToolsNode s) = s"
| "node_stream (OtherNode _) = Inr []"

section \<open>The response record, the store and the callbacks\<close>

text \<open>
  The dict \<open>{"tool_name": ..., "args": ...}\<close> that \<open>_handle_tool_call\<close> builds is
  one object: the list \<open>tool_calls\<close> holds it and \<open>on_tool_call\<close> receives it, so
  the caller can change it afterwards. The model keeps the dicts in a store, in the
  order of their creation; the address of a dict is its index there, and
  \<open>tool_calls\<close> is a list of addresses. The texts of \<open>tool_results\<close> are
  immutable and are kept by value.
\<close>

record tool_call =
  tool_name :: string
  args :: string

type_synonym store = "tool_call list"

record response =
  assistant_content :: string
  tool_calls :: "nat list"
  tool_results :: "string list"
  error :: "string option"

text \<open>
  Every callback invocation is logged, in order; \<open>on_tool_call\<close> is logged with the
  address of the dict it receives and the dict's contents at that moment. A callback is
  any Python callable: it may raise, it may rewrite the dicts that the caller has been
  handed, and what it does may depend on everything the callbacks have been called with
  before, so it receives the log of the earlier invocations.
\<close>

datatype cb_event = AssistantMessage string | ToolCall nat tool_call | ToolResult string

record cb_outcome =
  raised :: "exn option"
  edit :: "nat \<Rightarrow> tool_call \<Rightarrow> tool_call"

type_synonym 'a callback = "cb_event list \<Rightarrow> 'a \<Rightarrow> cb_outcome"

record callbacks =
  on_assistant_message :: "string callback option"
  on_tool_call :: "(nat \<times> tool_call) callback option"
  on_tool_result :: "string callback option"

type_synonym state = "response \<times> store \<times> cb_event list"

definition rewrite :: "(nat \<Rightarrow> tool_call \<Rightarrow> tool_call) \<Rightarrow> store \<Rightarrow> store" where
  "rewrite m h = map (\<lambda>(i, d). m i d) (enumerate 0 h)"

text \<open>
  Calling an optional callback. The dicts reach the caller through \<open>on_tool_call\<close>
  only, and every dict is handed to it when it is supplied: without it no callback
  holds a dict, with it every callback may rewrite every dict of the store.
\<close>

definition invoke :: "callbacks \<Rightarrow> 'a callback option \<Rightarrow> ('a \<Rightarrow> cb_event) \<Rightarrow> 'a \<Rightarrow> store \<times> cb_event list \<Rightarrow> (store \<times> cb_event list) \<times> exn option" where
  "invoke cbs cb tag a s =
     (case s of (h, tr) \<Rightarrow>
        (case cb of
           None \<Rightarrow> ((h, tr), None)
         | Some f \<Rightarrow>
             ((if on_tool_call cbs = None then h else rewrite (edit (f tr a)) h, tr @ [tag a]),
              raised (f tr a))))"

section \<open>The handlers\<close>

text \<open>
  \<open>async for x in it: body\<close>: the body runs on each item in turn. The loop ends
  normally at the end of the iterator, also when \<open>__anext__\<close> raises
  \<open>StopAsyncIteration\<close> itself; any other exception of the iterator, and every
  exception of the body, ends the loop with the state as it is.
\<close>

fun for_each :: "('a \<Rightarrow> 's \<Rightarrow> 's \<times> exn option) \<Rightarrow> 'a item list \<Rightarrow> 's \<Rightarrow> 's \<times> exn option" where
  "for_each body [] s = (s, None)"
| "for_each body (Raises e # rest) s = (if is_stop_async_iteration e then (s, None) else (s, Some e))"
| "for_each body (Item x # rest) s =
     (case body x s of
        (s', None) \<Rightarrow> for_each body rest s'
      | (s', Some e) \<Rightarrow> (s', Some e))"

text \<open>The loop body of \<open>_handle_model_request\<close>, on the local \<open>collected_content\<close>.\<close>

definition model_event :: "callbacks \<Rightarrow> event \<Rightarrow> string \<times> store \<times> cb_event list \<Rightarrow> (string \<times> store \<times> cb_event list) \<times> exn option" where
  "model_event cbs ev s =
     (case s of (collected_content, h, tr) \<Rightarrow>
        (case ev_delta ev of
           Some (ContentDelta d) \<Rightarrow>
             if truthy d then
               (case d of
                  PStr t \<Rightarrow>
                    (case invoke cbs (on_assistant_message cbs) AssistantMessage t (h, tr) of
                       ((h', tr'), x) \<Rightarrow> ((collected_content @ t, h', tr'), x))
                | _ \<Rightarrow> ((collected_content, h, tr), Some (cannot_concatenate (type_name d))))
             else ((collected_content, h, tr), None)
         | _ \<Rightarrow> ((collected_content, h, tr), None)))"

definition handle_model_request :: "callbacks \<Rightarrow> event source \<Rightarrow> state \<Rightarrow> state \<times> exn option" where
  "handle_model_request cbs src st =
     coroutine
       (case st of (r, h, tr) \<Rightarrow>
          (case src of
             Inl e \<Rightarrow> ((r, h, tr), Some e)
           | Inr stream \<Rightarrow>
               (case for_each (model_event cbs) stream ([], h, tr) of
                  ((collected_content, h', tr'), None) \<Rightarrow>
                    ((r\<lparr>assistant_content := collected_content\<rparr>, h', tr'), None)
                | ((collected_content, h', tr'), Some e) \<Rightarrow> ((r, h', tr'), Some e))))"

text \<open>The loop body of \<open>_handle_tool_call\<close>.\<close>

definition tool_event :: "callbacks \<Rightarrow> event \<Rightarrow> state \<Rightarrow> state \<times> exn option" where
  "tool_event cbs ev st =
     (case st of (r, h, tr) \<Rightarrow>
        (case ev_part ev of
           Some (ToolCallPart name a) \<Rightarrow>
             if truthy a then
               (case a of
                  PStr t \<Rightarrow>
                    if py_strip t \<notin> set ['''', ''{}''] then
                      (let tc = \<lparr>tool_name = name, args = t\<rparr>;
                           addr = length h
                       in case invoke cbs (on_tool_call cbs) (\<lambda>(i, d). ToolCall i d) (addr, tc) (h @ [tc], tr) of
                            ((h', tr'), x) \<Rightarrow> ((r\<lparr>tool_calls := tool_calls r @ [addr]\<rparr>, h', tr'), x))
                    else ((r, h, tr), None)
                | _ \<Rightarrow> ((r, h, tr), Some (no_attribute (type_name a) ''strip'')))
             else ((r, h, tr), None)
         | _ \<Rightarrow>
             (case ev_result ev of
                Some (ResultWithContent p) \<Rightarrow>
                  (case p of
                     OtherPayload ty \<Rightarrow> ((r, h, tr), Some (no_attribute ty ''content''))
                   | CallToolResult [] \<Rightarrow> ((r, h, tr), Some index_out_of_range)
                   | CallToolResult (OtherContent ty # _) \<Rightarrow> ((r, h, tr), Some (no_attribute ty ''text''))
                   | CallToolResult (TextContent t # _) \<Rightarrow>
                       (case invoke cbs (on_tool_result cbs) ToolResult t (h, tr) of
                          ((h', tr'), x) \<Rightarrow> ((r\<lparr>tool_results := tool_results r @ [t]\<rparr>, h', tr'), x)))
              | _ \<Rightarrow> ((r, h, tr), None))))"

definition handle_tool_call :: "callbacks \<Rightarrow> event source \<Rightarrow> state \<Rightarrow> state \<times> exn option" where
  "handle_tool_call cbs src st =
     coroutine
       (case src of
          Inl e \<Rightarrow> (st, Some e)
        | Inr stream \<Rightarrow> for_each (tool_event cbs) stream st)"

definition process_node :: "callbacks \<Rightarrow> node \<Rightarrow> state \<Rightarrow> state \<times> exn option" where
  "process_node cbs n st =
     (if is_model_request_node n then handle_model_request cbs (node_stream n) st
      else if is_call_tools_node n then handle_tool_call cbs (node_stream n) st
      else (st, None))"

definition process_agent_run :: "callbacks \<Rightarrow> node item list \<Rightarrow> state \<Rightarrow> state \<times> exn option" where
  "process_agent_run cbs run st = coroutine (for_each (process_node cbs) run st)"

section \<open>Prompt preparation and \<open>process_input\<close>\<close>

text \<open>
  \<open>json.dumps(history, indent=2)\<close> is the standard library's; it is a parameter
  \<open>dumps\<close>, which returns the text or raises (a history entry that is not
  serialisable). \<open>not history\<close> holds for \<open>None\<close> and for the empty list.
\<close>

definition history_header :: string where
  "history_header = ''Previous conversation:'' @ [CHR 10]"

definition query_separator :: string where
  "query_separator = [CHR 10, CHR 10] @ ''Current query: ''"

definition prepare_input_with_history :: "('h list \<Rightarrow> exn + string) \<Rightarrow> string \<Rightarrow> 'h list option \<Rightarrow> exn + string" where
  "prepare_input_with_history dumps user_input history =
     (if history = None \<or> history = Some [] then Inr user_input
      else
        (case dumps (the history) of
           Inl e \<Rightarrow> Inl e
         | Inr js \<Rightarrow> Inr (history_header @ js @ query_separator @ user_input)))"

text \<open>
  The agent handle is used through \<open>async with self.agent.iter(prompt) as run\<close>
  only: for a prompt, entering raises or gives the run, the iterator of the nodes.
\<close>

type_synonym agent = "string \<Rightarrow> node source"

record service =
  agent :: agent

definition initial_response :: response where
  "initial_response = \<lparr>assistant_content = [], tool_calls = [], tool_results = [], error = None\<rparr>"

text \<open>
  \<open>process_input\<close>: the prompt preparation and the entering of the run happen in its
  own frame, inside the \<open>try\<close>; the run is processed by the coroutine
  \<open>_process_agent_run\<close>. The result is the returned record (\<open>Inr\<close>) or the
  exception that reaches the caller (\<open>Inl\<close>), with the store and the callback log.
\<close>

definition process_input :: "('h list \<Rightarrow> exn + string) \<Rightarrow> service \<Rightarrow> string \<Rightarrow> 'h list option \<Rightarrow> callbacks \<Rightarrow> (exn + response) \<times> store \<times> cb_event list" where
  "process_input dumps self user_input history cbs =
     (case (case prepare_input_with_history dumps user_input history of
              Inl e \<Rightarrow> ((initial_response, [], []), Some e)
            | Inr input_with_context \<Rightarrow>
                (case agent self input_with_context of
                   Inl e \<Rightarrow> ((initial_response, [], []), Some e)
                 | Inr run \<Rightarrow> process_agent_run cbs run (initial_response, [], []))) of
        ((r, h, tr), None) \<Rightarrow> (Inr r, h, tr)
      | ((r, h, tr), Some e) \<Rightarrow>
          if is_exception e then (Inr (r\<lparr>error := Some (str_of e)\<rparr>), h, tr) else (Inl e, h, tr))"

section \<open>Construction\<close>

text \<open>
  \<open>__init__\<close> reads \<open>BASE_MODEL\<close> from the environment and then calls two external
  constructors, \<open>MCPServerStdio\<close> and \<open>Agent\<close>. The calls it makes are logged; the
  \<open>Agent\<close> constructor is a parameter and may raise.
\<close>

record mcp_server =
  command :: string
  server_args :: "string list"

datatype construction = ServerConfigured mcp_server | AgentRequested string "mcp_server list" string

definition default_system_prompt :: string where
  "default_system_prompt = ''You are a helpful assistant. Only use tools if needed for a user query.''"

definition init :: "(string \<Rightarrow> mcp_server list \<Rightarrow> string \<Rightarrow> exn + agent) \<Rightarrow> string \<Rightarrow> (string \<rightharpoonup> string) \<Rightarrow> string \<Rightarrow> construction list \<times> (exn + service)" where
  "init Agent sys_executable getenv system_prompt =
     (case getenv ''BASE_MODEL'' of
        None \<Rightarrow> ([], Inl (PyException ''ValueError'' ''BASE_MODEL environment variable is required''))
      | Some model_name \<Rightarrow>
          if model_name = [] then
            ([], Inl (PyException ''ValueError'' ''BASE_MODEL environment variable is required''))
          else
            (let server = \<lparr>command = sys_executable, server_args = [''mcp_server.py'']\<rparr>;
                 made = [ServerConfigured server, AgentRequested model_name [server] system_prompt]
             in case Agent model_name [server] system_prompt of
                  Inl e \<Rightarrow> (made, Inl e)
                | Inr a \<Rightarrow> (made, Inr \<lparr>agent = a\<rparr>)))"

section \<open>Auxiliary notions for the properties\<close>

text \<open>
  The three event shapes of the agent framework: a text delta of the model, a tool-call
  request, and a tool result carrying a payload.
\<close>

definition text_event :: "string \<Rightarrow> event" where
  "text_event t = \<lparr>ev_delta = Some (ContentDelta (PStr t)), ev_part = None, ev_result = None\<rparr>"

definition tool_call_event :: "string \<Rightarrow> pyval \<Rightarrow> event" where
  "tool_call_event name a = \<lparr>ev_delta = None, ev_part = Some (ToolCallPart name a), ev_result = None\<rparr>"

definition tool_result_event :: "payload \<Rightarrow> event" where
  "tool_result_event p = \<lparr>ev_delta = None, ev_part = None, ev_result = Some (ResultWithContent p)\<rparr>"

definition no_callbacks :: callbacks where
  "no_callbacks = \<lparr>on_assistant_message = None, on_tool_call = None, on_tool_result = None\<rparr>"

text \<open>A callback outcome: returning normally, changing nothing; and raising.\<close>

definition returns :: cb_outcome where
  "returns = \<lparr>raised = None, edit = (\<lambda>i d. d)\<rparr>"


text \<open>
  \<open>grows r r'\<close>: both lists of \<open>r'\<close> are those of \<open>r\<close> with elements appended at the
  end, or unchanged. The elements of \<open>tool_calls\<close> are the dicts themselves, that is
  their addresses.
\<close>

definition grows :: "response \<Rightarrow> response \<Rightarrow> bool" where
  "grows r r' = (prefix (tool_calls r) (tool_calls r') \<and> prefix (tool_results r) (tool_results r'))"

text \<open>
  \<open>quiet cbs\<close>: no callback changes a dict it has been handed: \<open>on_tool_call\<close> is
  absent, or none of the callbacks rewrites anything.
\<close>

definition never_rewrites :: "'a callback option \<Rightarrow> bool" where
  "never_rewrites cb = (case cb of None \<Rightarrow> True | Some f \<Rightarrow> (\<forall>tr a i d. edit (f tr a) i d = d))"

definition quiet :: "callbacks \<Rightarrow> bool" where
  "quiet cbs = (on_tool_call cbs = None
     \<or> (never_rewrites (on_assistant_message cbs) \<and> never_rewrites (on_tool_call cbs)
        \<and> never_rewrites (on_tool_result cbs)))"

text \<open>
  The items an iterator yields before it ends or raises, the text deltas \<open>d1..dn\<close> of
  a stream of events, and the text that a node's stream accumulates.
\<close>

fun yielded :: "'a item list \<Rightarrow> 'a list" where
  "yielded [] = []"
| "yielded (Item x # rest) = x # yielded rest"
| "yielded (Raises e # rest) = []"

definition delta_text :: "event \<Rightarrow> string" where
  "delta_text ev = (case ev_delta ev of Some (ContentDelta (PStr t)) \<Rightarrow> t | _ \<Rightarrow> [])"

definition stream_deltas :: "event item list \<Rightarrow> string list" where
  "stream_deltas stream = map delta_text (yielded stream)"

definition node_text :: "node \<Rightarrow> string" where
  "node_text n = (case node_stream n of Inl e \<Rightarrow> [] | Inr stream \<Rightarrow> concat (stream_deltas stream))"

section \<open>Coroutines and loops\<close>

lemma coroutine_None: "coroutine (s, None) = (s, None)"
  by (simp add: coroutine_def)

lemma coroutine_Some: "coroutine (s, Some e) = (s, Some (leaving_coroutine e))"
  by (simp add: coroutine_def)

lemma coroutine_returns: "coroutine res = (s, None) \<longleftrightarrow> res = (s, None)"
  by (cases res) (auto simp: coroutine_def)

lemma fst_coroutine: "fst (coroutine res) = fst res"
  by (simp add: coroutine_def)

lemma snd_coroutine_None: "snd (coroutine res) = None \<longleftrightarrow> snd res = None"
  by (simp add: coroutine_def)

lemma leaving_twice: "leaving_coroutine (leaving_coroutine e) = leaving_coroutine e"
  by (simp add: leaving_coroutine_def)

lemma coroutine_twice: "coroutine (coroutine res) = coroutine res"
  by (cases res) (simp add: coroutine_def option.map_comp comp_def leaving_twice cong: option.map_cong)



lemma for_each_items:
  "for_each body (map Item xs @ rest) s =
     (case for_each body (map Item xs) s of (s', None) \<Rightarrow> for_each body rest s' | (s', Some e) \<Rightarrow> (s', Some e))"
  by (induction xs arbitrary: s) (simp_all split: prod.splits option.splits)

lemma for_each_preserves:
  assumes step: "\<And>x s. R s (fst (body x s))"
    and refl: "\<And>s. R s s"
    and trans: "\<And>a b c. R a b \<Longrightarrow> R b c \<Longrightarrow> R a c"
  shows "R s (fst (for_each body xs s))"
proof (induction xs arbitrary: s)
  case Nil
  show ?case by (simp add: refl)
next
  case (Cons x xs)
  show ?case
  proof (cases x)
    case (Raises e)
    then show ?thesis by (simp add: refl)
  next
    case (Item a)
    obtain s' res where b: "body a s = (s', res)" by (cases "body a s")
    have 1: "R s s'" using step [of s a] b by simp
    show ?thesis
    proof (cases res)
      case None
      then show ?thesis using Item b 1 Cons.IH [of s'] trans by auto
    next
      case (Some e)
      then show ?thesis using Item b 1 by simp
    qed
  qed
qed

lemma for_each_returns_shape:
  "for_each body xs s = (s', None) \<Longrightarrow>
     xs = map Item (yielded xs)
     \<or> (\<exists>e rest. is_stop_async_iteration e \<and> xs = map Item (yielded xs) @ Raises e # rest)"
proof (induction xs arbitrary: s)
  case Nil
  show ?case by simp
next
  case (Cons x xs)
  show ?case
  proof (cases x)
    case (Raises e)
    then show ?thesis using Cons.prems by (auto split: if_splits)
  next
    case (Item a)
    obtain s1 res where b: "body a s = (s1, res)" by (cases "body a s")
    have "res = None" using Cons.prems Item b by (cases res) auto
    then have "for_each body xs s1 = (s', None)" using Cons.prems Item b by simp
    from Cons.IH [OF this] show ?thesis using Item by auto
  qed
qed

text \<open>How each of the three loops goes through its iterator, one item at a time.\<close>

lemma handle_tool_call_Nil: "handle_tool_call cbs (Inr []) st = (st, None)"
  by (simp add: handle_tool_call_def coroutine_def)

lemma handle_tool_call_Item:
  "handle_tool_call cbs (Inr (Item ev # later)) st =
     (case tool_event cbs ev st of
        (s, None) \<Rightarrow> handle_tool_call cbs (Inr later) s
      | (s, Some e) \<Rightarrow> (s, Some (leaving_coroutine e)))"
  by (simp add: handle_tool_call_def coroutine_def split: prod.splits option.splits)


lemma handle_tool_call_cut:
  assumes "handle_tool_call cbs (Inr (map Item evs)) st = (st1, None)"
  shows "handle_tool_call cbs (Inr (map Item evs @ later)) st = handle_tool_call cbs (Inr later) st1"
proof -
  have "for_each (tool_event cbs) (map Item evs) st = (st1, None)"
    using assms by (simp add: handle_tool_call_def coroutine_returns)
  then show ?thesis by (simp add: handle_tool_call_def for_each_items)
qed

lemma process_agent_run_Nil: "process_agent_run cbs [] st = (st, None)"
  by (simp add: process_agent_run_def coroutine_def)

lemma process_agent_run_Item:
  "process_agent_run cbs (Item n # later) st =
     (case process_node cbs n st of
        (s, None) \<Rightarrow> process_agent_run cbs later s
      | (s, Some e) \<Rightarrow> (s, Some (leaving_coroutine e)))"
  by (simp add: process_agent_run_def coroutine_def split: prod.splits option.splits)

lemma process_agent_run_Raises:
  "process_agent_run cbs (Raises e # later) st =
     (st, if is_stop_async_iteration e then None else Some (leaving_coroutine e))"
  by (simp add: process_agent_run_def coroutine_def)

lemma process_agent_run_cut:
  assumes "process_agent_run cbs (map Item ns) st = (st1, None)"
  shows "process_agent_run cbs (map Item ns @ later) st = process_agent_run cbs later st1"
proof -
  have "for_each (process_node cbs) (map Item ns) st = (st1, None)"
    using assms by (simp add: process_agent_run_def coroutine_returns)
  then show ?thesis by (simp add: process_agent_run_def for_each_items)
qed


lemma process_input_returns:
  "process_input dumps self user_input history cbs =
     (case prepare_input_with_history dumps user_input history of
        Inl e \<Rightarrow> (if is_exception e then Inr (initial_response\<lparr>error := Some (str_of e)\<rparr>) else Inl e, [], [])
      | Inr p \<Rightarrow>
          (case agent self p of
             Inl e \<Rightarrow> (if is_exception e then Inr (initial_response\<lparr>error := Some (str_of e)\<rparr>) else Inl e, [], [])
           | Inr run \<Rightarrow>
               (case process_agent_run cbs run (initial_response, [], []) of
                  ((r, h, tr), None) \<Rightarrow> (Inr r, h, tr)
                | ((r, h, tr), Some e) \<Rightarrow>
                    (if is_exception e then Inr (r\<lparr>error := Some (str_of e)\<rparr>) else Inl e, h, tr))))"
  by (simp add: process_input_def split: sum.splits prod.splits option.splits)

section \<open>Single steps\<close>

lemma py_strip_Nil: "py_strip [] = []"
  by (simp add: py_strip_def)

lemma py_strip_braces: "py_strip ''{}'' = ''{}''"
  by (simp add: py_strip_def py_isspace_def)

lemma length_rewrite: "length (rewrite m h) = length h"
  by (simp add: rewrite_def)

lemma rewrite_id: "(\<And>i d. m i d = d) \<Longrightarrow> rewrite m h = h"
proof -
  assume "\<And>i d. m i d = d"
  then have "(\<lambda>(i, d). m i d) = snd" by (simp add: fun_eq_iff)
  then show ?thesis by (simp add: rewrite_def)
qed

lemma grows_refl: "grows r r"
  by (simp add: grows_def)

lemma grows_trans: "grows a b \<Longrightarrow> grows b c \<Longrightarrow> grows a c"
  by (auto simp: grows_def)

lemma tool_event_grows: "grows (fst st) (fst (fst (tool_event cbs ev st)))"
  by (cases st)
    (auto simp: tool_event_def grows_def Let_def
      split: option.splits part_obj.splits pyval.splits result_obj.splits payload.splits
        list.splits segment.splits prod.splits)

lemma handle_tool_call_grows: "grows (fst st) (fst (fst (handle_tool_call cbs src st)))"
proof (cases src)
  case (Inl e)
  then show ?thesis by (simp add: handle_tool_call_def coroutine_def grows_refl)
next
  case (Inr stream)
  have "grows (fst st) (fst (fst (for_each (tool_event cbs) stream st)))"
    by (rule for_each_preserves [where R = "\<lambda>a b. grows (fst a) (fst b)"])
      (auto intro: tool_event_grows grows_refl grows_trans)
  then show ?thesis using Inr by (simp add: handle_tool_call_def coroutine_def)
qed

lemma handle_model_request_lists:
  "tool_calls (fst (fst (handle_model_request cbs src st))) = tool_calls (fst st)
   \<and> tool_results (fst (fst (handle_model_request cbs src st))) = tool_results (fst st)"
  by (cases st) (auto simp: handle_model_request_def coroutine_def split: sum.splits prod.splits option.splits)

lemma process_node_grows: "grows (fst st) (fst (fst (process_node cbs n st)))"
  by (simp add: process_node_def handle_tool_call_grows grows_refl)
    (simp add: grows_def handle_model_request_lists)

lemma process_agent_run_grows: "grows (fst st) (fst (fst (process_agent_run cbs run st)))"
proof -
  have "grows (fst st) (fst (fst (for_each (process_node cbs) run st)))"
    by (rule for_each_preserves [where R = "\<lambda>a b. grows (fst a) (fst b)"])
      (auto intro: process_node_grows grows_refl grows_trans)
  then show ?thesis by (simp add: process_agent_run_def coroutine_def)
qed

section \<open>Tool-call events\<close>

text \<open>
  C3, as the code has it. For an event that exposes a tool name and whose arguments are
  text: when the text is empty or is \<open>{}\<close>, and more generally when it is empty or
  \<open>{}\<close> once the whitespace at both ends is stripped, nothing is appended to
  \<open>tool_calls\<close> and \<open>on_tool_call\<close> is not invoked. Otherwise exactly one entry, a
  new dict of the tool name and the arguments as they arrived, is appended, and
  \<open>on_tool_call\<close>, when supplied, is invoked exactly once, with that entry.
\<close>

theorem tool_call_recorded:
  assumes "ev_part ev = Some (ToolCallPart name (PStr a))"
  shows "(a = [] \<or> a = ''{}'' \<longrightarrow> tool_event cbs ev (r, h, tr) = ((r, h, tr), None))
   \<and> (py_strip a = [] \<or> py_strip a = ''{}'' \<longrightarrow> tool_event cbs ev (r, h, tr) = ((r, h, tr), None))
   \<and> (py_strip a \<noteq> [] \<and> py_strip a \<noteq> ''{}'' \<longrightarrow>
        fst (tool_event cbs ev (r, h, tr)) =
          (r\<lparr>tool_calls := tool_calls r @ [length h]\<rparr>,
           (case on_tool_call cbs of
              None \<Rightarrow> h @ [\<lparr>tool_name = name, args = a\<rparr>]
            | Some f \<Rightarrow> rewrite (edit (f tr (length h, \<lparr>tool_name = name, args = a\<rparr>)))
                         (h @ [\<lparr>tool_name = name, args = a\<rparr>])),
           (case on_tool_call cbs of
              None \<Rightarrow> tr
            | Some f \<Rightarrow> tr @ [ToolCall (length h) \<lparr>tool_name = name, args = a\<rparr>]))
        \<and> snd (tool_event cbs ev (r, h, tr)) =
          (case on_tool_call cbs of
             None \<Rightarrow> None
           | Some f \<Rightarrow> raised (f tr (length h, \<lparr>tool_name = name, args = a\<rparr>))))"
proof -
  have 1: "py_strip a \<noteq> [] \<Longrightarrow> a \<noteq> []" using py_strip_Nil by auto
  show ?thesis
    using assms 1
    by (auto simp: tool_event_def Let_def py_strip_Nil py_strip_braces invoke_def split: option.splits)
qed

theorem tool_call_recorded_witness:
  "ev_part (tool_call_event ''add'' (PStr ''{a: 2}'')) = Some (ToolCallPart ''add'' (PStr ''{a: 2}''))
   \<and> py_strip ''{a: 2}'' \<noteq> [] \<and> py_strip ''{a: 2}'' \<noteq> ''{}''
   \<and> fst (tool_event \<lparr>on_assistant_message = None, on_tool_call = Some (\<lambda>tr c. returns), on_tool_result = None\<rparr>
        (tool_call_event ''add'' (PStr ''{a: 2}'')) (initial_response, [], []))
      = (initial_response\<lparr>tool_calls := [0]\<rparr>, [\<lparr>tool_name = ''add'', args = ''{a: 2}''\<rparr>],
         [ToolCall 0 \<lparr>tool_name = ''add'', args = ''{a: 2}''\<rparr>])"
proof -
  have p: "ev_part (tool_call_event ''add'' (PStr ''{a: 2}'')) = Some (ToolCallPart ''add'' (PStr ''{a: 2}''))"
    by (simp add: tool_call_event_def)
  have s: "py_strip ''{a: 2}'' = ''{a: 2}''"
    by (simp add: py_strip_def py_isspace_def)
  show ?thesis
    using tool_call_recorded [OF p,
        of "\<lparr>on_assistant_message = None, on_tool_call = Some (\<lambda>tr c. returns), on_tool_result = None\<rparr>"
           initial_response "[]" "[]"] p s
    by (simp add: initial_response_def returns_def rewrite_def)
qed

text \<open>
  C3 as the spec states it fails: the argument text of one space is not empty and is not
  \<open>{}\<close>, yet the event appends nothing.
\<close>

theorem padded_args_counterexample:
  "'' '' \<noteq> [] \<and> '' '' \<noteq> ''{}''
   \<and> tool_event no_callbacks (tool_call_event ''search'' (PStr '' '')) (initial_response, [], [])
       = ((initial_response, [], []), None)"
  by (simp add: tool_event_def tool_call_event_def py_strip_def py_isspace_def)

section \<open>Tool-result events\<close>

text \<open>
  C4, as the code has it. For an event that exposes no tool name and whose result
  payload has a first segment carrying text, exactly that text is appended to
  \<open>tool_results\<close>, and \<open>on_tool_result\<close>, when supplied, is invoked exactly once,
  with that text.
\<close>

theorem tool_result_recorded:
  assumes "ev_part ev = None \<or> ev_part ev = Some OtherPart"
    and "ev_result ev = Some (ResultWithContent (CallToolResult (TextContent t # segs)))"
  shows "fst (tool_event cbs ev (r, h, tr)) =
          (r\<lparr>tool_results := tool_results r @ [t]\<rparr>,
           (case on_tool_result cbs of
              None \<Rightarrow> h
            | Some f \<Rightarrow> if on_tool_call cbs = None then h else rewrite (edit (f tr t)) h),
           (case on_tool_result cbs of None \<Rightarrow> tr | Some f \<Rightarrow> tr @ [ToolResult t]))
        \<and> snd (tool_event cbs ev (r, h, tr)) =
          (case on_tool_result cbs of None \<Rightarrow> None | Some f \<Rightarrow> raised (f tr t))"
  using assms by (auto simp: tool_event_def invoke_def split: option.splits)

theorem tool_result_recorded_witness:
  "ev_part (tool_result_event (CallToolResult [TextContent ''4'', TextContent ''5''])) = None
   \<and> fst (tool_event \<lparr>on_assistant_message = None, on_tool_call = None, on_tool_result = Some (\<lambda>tr t. returns)\<rparr>
        (tool_result_event (CallToolResult [TextContent ''4'', TextContent ''5''])) (initial_response, [], []))
      = (initial_response\<lparr>tool_results := [''4'']\<rparr>, [], [ToolResult ''4''])"
proof -
  have p: "ev_part (tool_result_event (CallToolResult [TextContent ''4'', TextContent ''5''])) = None
           \<or> ev_part (tool_result_event (CallToolResult [TextContent ''4'', TextContent ''5''])) = Some OtherPart"
    by (simp add: tool_result_event_def)
  have q: "ev_result (tool_result_event (CallToolResult [TextContent ''4'', TextContent ''5'']))
           = Some (ResultWithContent (CallToolResult (TextContent ''4'' # [TextContent ''5''])))"
    by (simp add: tool_result_event_def)
  show ?thesis
    using tool_result_recorded [OF p q,
        of "\<lparr>on_assistant_message = None, on_tool_call = None, on_tool_result = Some (\<lambda>tr t. returns)\<rparr>"
           initial_response "[]" "[]"]
    by (simp add: initial_response_def tool_result_event_def)
qed

text \<open>
  C4 as the spec states it fails twice. An event that exposes a result payload with no
  segment raises \<open>IndexError\<close>, appends nothing and invokes no callback. And an
  event that exposes a result payload with a text segment, and a tool name with empty
  arguments as well, takes the tool-call branch only: nothing is appended.
\<close>

theorem empty_payload_counterexample:
  "tool_event no_callbacks (tool_result_event (CallToolResult [])) (initial_response, [], [])
     = ((initial_response, [], []), Some (PyException ''IndexError'' ''list index out of range''))
   \<and> tool_event no_callbacks
        \<lparr>ev_delta = None, ev_part = Some (ToolCallPart ''add'' (PStr [])),
         ev_result = Some (ResultWithContent (CallToolResult [TextContent ''4'']))\<rparr>
        (initial_response, [], [])
     = ((initial_response, [], []), None)"
  by (simp add: tool_event_def tool_result_event_def index_out_of_range_def)

section \<open>Prompt construction\<close>

text \<open>
  C5, as the code has it. With no history the prompt is \<open>user_input\<close> verbatim. With
  a history that is not empty the prompt is the fixed header, the serialised history,
  the fixed separator and \<open>user_input\<close>, and it differs from \<open>user_input\<close>; when the
  serialiser raises, so does the preparation.
\<close>

theorem prompt_construction:
  "prepare_input_with_history dumps user_input None = Inr user_input
   \<and> (h \<noteq> [] \<longrightarrow> dumps h = Inr js \<longrightarrow>
        prepare_input_with_history dumps user_input (Some h) = Inr (history_header @ js @ query_separator @ user_input)
        \<and> history_header @ js @ query_separator @ user_input \<noteq> user_input)
   \<and> (h \<noteq> [] \<longrightarrow> dumps h = Inl e \<longrightarrow> prepare_input_with_history dumps user_input (Some h) = Inl e)"
proof -
  have "length (history_header @ js @ query_separator @ user_input) > length user_input"
    by (simp add: history_header_def)
  then have "history_header @ js @ query_separator @ user_input \<noteq> user_input"
    by (metis less_irrefl)
  then show ?thesis
    by (simp add: prepare_input_with_history_def)
qed

theorem prompt_construction_witness:
  "[1::nat] \<noteq> []
   \<and> prepare_input_with_history (\<lambda>h::nat list. Inr (''['' @ [CHR 10] @ ''  1'' @ [CHR 10] @ '']'')) ''hi'' (Some [1])
       = Inr (''Previous conversation:'' @ [CHR 10] @ ''['' @ [CHR 10] @ ''  1'' @ [CHR 10] @ '']''
              @ [CHR 10, CHR 10] @ ''Current query: hi'')
   \<and> prepare_input_with_history (\<lambda>h::nat list. Inl (PyException ''TypeError'' ''not serializable'')) ''hi'' (Some [1])
       = Inl (PyException ''TypeError'' ''not serializable'')"
  using prompt_construction [of "\<lambda>h::nat list. Inr (''['' @ [CHR 10] @ ''  1'' @ [CHR 10] @ '']'')" "''hi''" "[1]"
      "''['' @ [CHR 10] @ ''  1'' @ [CHR 10] @ '']''"]
    prompt_construction [of "\<lambda>h::nat list. Inl (PyException ''TypeError'' ''not serializable'')" "''hi''" "[1]" _
      "PyException ''TypeError'' ''not serializable''"]
  by (simp add: history_header_def query_separator_def)

text \<open>
  C5 as the spec states it, for every history sequence, fails at the empty sequence:
  the prompt is \<open>user_input\<close> alone, and holds neither the serialised history nor the
  separator.
\<close>

theorem prompt_with_empty_history_counterexample:
  "prepare_input_with_history (\<lambda>h::string list. Inr ''[]'') ''hi'' (Some []) = Inr ''hi''
   \<and> \<not> (\<exists>pre. ''hi'' = pre @ ''[]'' @ query_separator @ ''hi'')"
  by (simp add: prepare_input_with_history_def query_separator_def append_eq_Cons_conv)

text \<open>
  C10. The empty history is treated as no history: the prompt is \<open>user_input\<close>
  verbatim in both cases, and \<open>process_input\<close> does the same in both.
\<close>

theorem empty_history_as_absent:
  "prepare_input_with_history dumps user_input (Some []) = Inr user_input
   \<and> prepare_input_with_history dumps user_input None = Inr user_input
   \<and> process_input dumps self user_input (Some []) cbs = process_input dumps self user_input None cbs"
  by (simp add: prepare_input_with_history_def process_input_def)

theorem empty_history_as_absent_witness:
  "prepare_input_with_history (\<lambda>h::string list. Inr ''[]'') ''2+2'' (Some []) = Inr ''2+2''
   \<and> prepare_input_with_history (\<lambda>h::string list. Inr ''[]'') ''2+2'' None = Inr ''2+2''"
  using empty_history_as_absent [of "\<lambda>h::string list. Inr ''[]''" "''2+2''"] by simp

section \<open>Nodes of neither kind\<close>

text \<open>
  C9. A node that is neither a model-request node nor a tool-invocation node leaves
  the response record, the stored dicts and the log of callback invocations as they
  are, and raises nothing.
\<close>

theorem other_node_skipped:
  "\<not> is_model_request_node n \<Longrightarrow> \<not> is_call_tools_node n \<Longrightarrow>
     process_node cbs n (r, h, tr) = ((r, h, tr), None)"
  by (simp add: process_node_def)

theorem other_node_skipped_witness:
  "\<not> is_model_request_node (OtherNode ''End'') \<and> \<not> is_call_tools_node (OtherNode ''End'')
   \<and> process_node no_callbacks (OtherNode ''End'') (initial_response, [], []) = ((initial_response, [], []), None)"
  using other_node_skipped [of "OtherNode ''End''" no_callbacks initial_response "[]" "[]"] by simp

section \<open>Construction of the service\<close>

text \<open>
  C8, as the code has it. When \<open>BASE_MODEL\<close> is absent or is the empty string,
  \<open>__init__\<close> raises \<open>ValueError\<close> before any external constructor is called. When
  it is a non-empty string, the server configuration and the agent are requested with
  that model name, and construction succeeds exactly when the \<open>Agent\<close> constructor
  does.
\<close>

theorem init_config_check:
  "(getenv ''BASE_MODEL'' = None \<or> getenv ''BASE_MODEL'' = Some [] \<longrightarrow>
      init Agent exe getenv sp = ([], Inl (PyException ''ValueError'' ''BASE_MODEL environment variable is required'')))
   \<and> (getenv ''BASE_MODEL'' = Some m \<and> m \<noteq> [] \<longrightarrow>
        fst (init Agent exe getenv sp) =
          [ServerConfigured \<lparr>command = exe, server_args = [''mcp_server.py'']\<rparr>,
           AgentRequested m [\<lparr>command = exe, server_args = [''mcp_server.py'']\<rparr>] sp]
        \<and> snd (init Agent exe getenv sp) =
          (case Agent m [\<lparr>command = exe, server_args = [''mcp_server.py'']\<rparr>] sp of
             Inl e \<Rightarrow> Inl e | Inr a \<Rightarrow> Inr \<lparr>agent = a\<rparr>))"
  by (auto simp: init_def Let_def split: sum.splits)

theorem init_config_check_witness:
  "Map.empty ''BASE_MODEL'' = (None :: string option)
   \<and> init (\<lambda>m s p. Inr (\<lambda>x. Inr [])) ''python'' Map.empty default_system_prompt
       = ([], Inl (PyException ''ValueError'' ''BASE_MODEL environment variable is required''))
   \<and> [''BASE_MODEL'' \<mapsto> ''test''] ''BASE_MODEL'' = Some ''test'' \<and> ''test'' \<noteq> []
   \<and> snd (init (\<lambda>m s p. Inr (\<lambda>x. Inr [])) ''python'' [''BASE_MODEL'' \<mapsto> ''test''] default_system_prompt)
       = Inr \<lparr>agent = (\<lambda>x. Inr [])\<rparr>"
  using init_config_check [where getenv = Map.empty and Agent = "\<lambda>m s p. Inr (\<lambda>x. Inr [])"
      and exe = "''python''" and sp = default_system_prompt]
    init_config_check [where getenv = "[''BASE_MODEL'' \<mapsto> ''test'']" and m = "''test''"
      and Agent = "\<lambda>m s p. Inr (\<lambda>x. Inr [])" and exe = "''python''" and sp = default_system_prompt]
  by simp

text \<open>
  C8 as the spec states it fails: with \<open>BASE_MODEL\<close> present and empty, construction
  raises, although the \<open>Agent\<close> constructor would succeed.
\<close>

theorem init_empty_model_counterexample:
  "[''BASE_MODEL'' \<mapsto> ''''] ''BASE_MODEL'' \<noteq> None
   \<and> init (\<lambda>m s p. Inr (\<lambda>x. Inr [])) ''python'' [''BASE_MODEL'' \<mapsto> ''''] default_system_prompt
       = ([], Inl (PyException ''ValueError'' ''BASE_MODEL environment variable is required''))"
  by (simp add: init_def)

section \<open>Model-request nodes\<close>

lemma model_event_ok:
  "model_event cbs ev (acc, h, tr) = ((acc', h', tr'), None) \<Longrightarrow>
     acc' = acc @ delta_text ev
     \<and> tr' = tr @ (case on_assistant_message cbs of None \<Rightarrow> []
                   | Some f \<Rightarrow> if delta_text ev = [] then [] else [AssistantMessage (delta_text ev)])"
  by (auto simp: model_event_def delta_text_def invoke_def
      split: option.splits delta_obj.splits pyval.splits if_splits)

lemma model_loop_ok:
  "for_each (model_event cbs) stream (acc, h, tr) = ((acc', h', tr'), None) \<Longrightarrow>
     acc' = acc @ concat (stream_deltas stream)
     \<and> tr' = tr @ (case on_assistant_message cbs of None \<Rightarrow> []
                   | Some f \<Rightarrow> map AssistantMessage (filter (\<lambda>d. d \<noteq> []) (stream_deltas stream)))"
proof (induction stream arbitrary: acc h tr)
  case Nil
  then show ?case by (simp add: stream_deltas_def split: option.splits)
next
  case (Cons x stream)
  show ?case
  proof (cases x)
    case (Raises e)
    then show ?thesis using Cons.prems
      by (auto simp: stream_deltas_def split: if_splits option.splits)
  next
    case (Item ev)
    obtain acc1 h1 tr1 res where b: "model_event cbs ev (acc, h, tr) = ((acc1, h1, tr1), res)"
      by (metis surj_pair)
    have res: "res = None"
      using Cons.prems Item b by (cases res) auto
    have rest: "for_each (model_event cbs) stream (acc1, h1, tr1) = ((acc', h', tr'), None)"
      using Cons.prems Item b res by simp
    note ih = Cons.IH [OF rest]
    note ev = model_event_ok [OF b [unfolded res]]
    show ?thesis
      using ih ev Item by (auto simp: stream_deltas_def split: option.splits)
  qed
qed

lemma model_event_returns:
  assumes "\<forall>f. on_assistant_message cbs = Some f \<longrightarrow> (\<forall>tr t. raised (f tr t) = None)"
    and "\<forall>n. ev_delta ev \<noteq> Some (ContentDelta (PObj n True))"
  shows "snd (model_event cbs ev s) = None"
  using assms
  by (cases s) (auto simp: model_event_def invoke_def split: option.splits delta_obj.splits pyval.splits)

lemma model_loop_returns:
  assumes "\<forall>f. on_assistant_message cbs = Some f \<longrightarrow> (\<forall>tr t. raised (f tr t) = None)"
    and "\<forall>ev \<in> set evs. \<forall>n. ev_delta ev \<noteq> Some (ContentDelta (PObj n True))"
  shows "snd (for_each (model_event cbs) (map Item evs) s) = None"
  using assms(2)
proof (induction evs arbitrary: s)
  case Nil
  show ?case by simp
next
  case (Cons ev evs)
  have 1: "snd (model_event cbs ev s) = None"
    using model_event_returns [OF assms(1), of ev s] Cons.prems by simp
  obtain s' where "model_event cbs ev s = (s', None)"
    using 1 by (metis prod.collapse)
  then show ?case using Cons by simp
qed

lemma handle_model_request_returns:
  assumes "handle_model_request cbs src (r, h, tr) = ((r', h', tr'), None)"
  shows "\<exists>stream. src = Inr stream
     \<and> for_each (model_event cbs) stream ([], h, tr) = ((assistant_content r', h', tr'), None)
     \<and> r' = r\<lparr>assistant_content := assistant_content r'\<rparr>"
proof (cases src)
  case (Inl e)
  then show ?thesis using assms by (simp add: handle_model_request_def coroutine_def)
next
  case (Inr stream)
  obtain acc1 h1 tr1 res where b: "for_each (model_event cbs) stream ([], h, tr) = ((acc1, h1, tr1), res)"
    by (metis surj_pair)
  have res: "res = None"
    using assms Inr b by (cases res) (auto simp: handle_model_request_def coroutine_def)
  have "r' = r\<lparr>assistant_content := acc1\<rparr> \<and> h' = h1 \<and> tr' = tr1"
    using assms Inr b res by (auto simp: handle_model_request_def coroutine_def)
  then show ?thesis using Inr b res by simp
qed

text \<open>
  C2. When \<open>_handle_model_request\<close> returns normally, the stream was opened and was
  exhausted without an exception, \<open>assistant_content\<close> is the concatenation of the
  text deltas of the stream's events in order, and the callback log is extended by one
  \<open>on_assistant_message\<close> invocation per non-empty delta, with that delta, in arrival
  order (by nothing when the callback is absent). It does return normally when the
  stream raises nothing, every delta is text or has no truth, and the callback, if any,
  never raises.
\<close>

theorem model_request_content:
  "(handle_model_request cbs src (r, h, tr) = ((r', h', tr'), None) \<longrightarrow>
      (\<exists>stream. src = Inr stream
         \<and> (stream = map Item (yielded stream)
            \<or> (\<exists>e rest. is_stop_async_iteration e \<and> stream = map Item (yielded stream) @ Raises e # rest))
         \<and> r' = r\<lparr>assistant_content := concat (stream_deltas stream)\<rparr>
         \<and> tr' = tr @ (case on_assistant_message cbs of None \<Rightarrow> []
                       | Some f \<Rightarrow> map AssistantMessage (filter (\<lambda>d. d \<noteq> []) (stream_deltas stream)))))
   \<and> ((\<forall>f. on_assistant_message cbs = Some f \<longrightarrow> (\<forall>tr t. raised (f tr t) = None))
      \<and> (\<forall>ev \<in> set evs. \<forall>n. ev_delta ev \<noteq> Some (ContentDelta (PObj n True))) \<longrightarrow>
      snd (handle_model_request cbs (Inr (map Item evs)) (r, h, tr)) = None)"
proof (intro conjI impI)
  assume a: "handle_model_request cbs src (r, h, tr) = ((r', h', tr'), None)"
  obtain stream where s: "src = Inr stream"
    and l: "for_each (model_event cbs) stream ([], h, tr) = ((assistant_content r', h', tr'), None)"
    and r: "r' = r\<lparr>assistant_content := assistant_content r'\<rparr>"
    using handle_model_request_returns [OF a] by blast
  note shape = for_each_returns_shape [OF l]
  note ok = model_loop_ok [OF l]
  have "r' = r\<lparr>assistant_content := concat (stream_deltas stream)\<rparr>"
    using r ok by simp
  then show "\<exists>stream. src = Inr stream
         \<and> (stream = map Item (yielded stream)
            \<or> (\<exists>e rest. is_stop_async_iteration e \<and> stream = map Item (yielded stream) @ Raises e # rest))
         \<and> r' = r\<lparr>assistant_content := concat (stream_deltas stream)\<rparr>
         \<and> tr' = tr @ (case on_assistant_message cbs of None \<Rightarrow> []
                       | Some f \<Rightarrow> map AssistantMessage (filter (\<lambda>d. d \<noteq> []) (stream_deltas stream)))"
    using s shape ok by blast
next
  assume a: "(\<forall>f. on_assistant_message cbs = Some f \<longrightarrow> (\<forall>tr t. raised (f tr t) = None))
      \<and> (\<forall>ev \<in> set evs. \<forall>n. ev_delta ev \<noteq> Some (ContentDelta (PObj n True)))"
  have "snd (for_each (model_event cbs) (map Item evs) ([], h, tr)) = None"
    using model_loop_returns [of cbs evs "([], h, tr)"] a by blast
  then show "snd (handle_model_request cbs (Inr (map Item evs)) (r, h, tr)) = None"
    by (auto simp: handle_model_request_def coroutine_def split: prod.splits option.splits)
qed

theorem model_request_content_witness:
  "handle_model_request \<lparr>on_assistant_message = Some (\<lambda>tr t. returns), on_tool_call = None, on_tool_result = None\<rparr>
      (Inr [Item (text_event ''Hel''), Item (text_event []), Item (text_event ''lo'')]) (initial_response, [], [])
     = ((initial_response\<lparr>assistant_content := ''Hello''\<rparr>, [], [AssistantMessage ''Hel'', AssistantMessage ''lo'']), None)
   \<and> stream_deltas [Item (text_event ''Hel''), Item (text_event []), Item (text_event ''lo'')] = [''Hel'', [], ''lo'']"
proof -
  let ?cbs = "\<lparr>on_assistant_message = Some (\<lambda>tr t. returns), on_tool_call = None, on_tool_result = None\<rparr>"
  let ?evs = "[text_event ''Hel'', text_event [], text_event ''lo'']"
  have d: "stream_deltas (map Item ?evs) = [''Hel'', [], ''lo'']"
    by (simp add: stream_deltas_def delta_text_def text_event_def)
  have ok: "snd (handle_model_request ?cbs (Inr (map Item ?evs)) (initial_response, [], [])) = None"
    using model_request_content [where cbs = ?cbs and evs = ?evs and r = initial_response
        and h = "[]" and tr = "[]"]
    by (simp add: text_event_def returns_def)
  obtain r' h' tr' where st: "handle_model_request ?cbs (Inr (map Item ?evs)) (initial_response, [], []) = ((r', h', tr'), None)"
    using ok by (metis prod.collapse)
  have "r' = initial_response\<lparr>assistant_content := ''Hello''\<rparr> \<and> tr' = [AssistantMessage ''Hel'', AssistantMessage ''lo'']"
    using model_request_content [where cbs = ?cbs and src = "Inr (map Item ?evs)" and r = initial_response
        and h = "[]" and tr = "[]" and r' = r' and h' = h' and tr' = tr'] st d
    by simp
  moreover have "h' = []"
    using st by (simp add: handle_model_request_def coroutine_def model_event_def text_event_def
        invoke_def returns_def)
  ultimately show ?thesis using st d by simp
qed

lemma tool_event_content: "assistant_content (fst (fst (tool_event cbs ev st))) = assistant_content (fst st)"
  by (cases st)
    (auto simp: tool_event_def Let_def
      split: option.splits part_obj.splits pyval.splits result_obj.splits payload.splits
        list.splits segment.splits prod.splits)

lemma handle_tool_call_content:
  "assistant_content (fst (fst (handle_tool_call cbs src st))) = assistant_content (fst st)"
proof (cases src)
  case (Inl e)
  then show ?thesis by (simp add: handle_tool_call_def coroutine_def)
next
  case (Inr stream)
  have "assistant_content (fst (fst (for_each (tool_event cbs) stream st))) = assistant_content (fst st)"
    by (rule for_each_preserves [where R = "\<lambda>a b. assistant_content (fst b) = assistant_content (fst a)"])
      (auto simp: tool_event_content)
  then show ?thesis using Inr by (simp add: handle_tool_call_def coroutine_def)
qed

lemma handle_model_request_ok:
  assumes "handle_model_request cbs src (r, h, tr) = ((r', h', tr'), None)"
  shows "\<exists>stream. src = Inr stream \<and> assistant_content r' = concat (stream_deltas stream)"
proof -
  obtain stream where s: "src = Inr stream"
    and l: "for_each (model_event cbs) stream ([], h, tr) = ((assistant_content r', h', tr'), None)"
    using handle_model_request_returns [OF assms] by blast
  show ?thesis using s model_loop_ok [OF l] by simp
qed

lemma handle_model_request_raises:
  "snd (handle_model_request cbs src (r, h, tr)) \<noteq> None \<Longrightarrow>
     fst (fst (handle_model_request cbs src (r, h, tr))) = r"
  by (auto simp: handle_model_request_def coroutine_def split: sum.splits prod.splits option.splits)

lemma process_node_content:
  assumes "process_node cbs n (r, h, tr) = ((r', h', tr'), None)"
  shows "assistant_content r' = (if is_model_request_node n then node_text n else assistant_content r)"
proof (cases "is_model_request_node n")
  case True
  then have "handle_model_request cbs (node_stream n) (r, h, tr) = ((r', h', tr'), None)"
    using assms by (simp add: process_node_def)
  from handle_model_request_ok [OF this] show ?thesis
    using True by (auto simp: node_text_def)
next
  case False
  show ?thesis
  proof (cases "is_call_tools_node n")
    case True
    then show ?thesis
      using assms False handle_tool_call_content [of cbs "node_stream n" "(r, h, tr)"]
      by (simp add: process_node_def)
  next
    case n: False
    then show ?thesis using assms False by (simp add: process_node_def)
  qed
qed

lemma process_node_raises_content:
  assumes "snd (process_node cbs n (r, h, tr)) \<noteq> None"
  shows "assistant_content (fst (fst (process_node cbs n (r, h, tr)))) = assistant_content r"
proof (cases "is_model_request_node n")
  case True
  then show ?thesis
    using assms handle_model_request_raises [of cbs "node_stream n" r h tr]
    by (simp add: process_node_def)
next
  case False
  then show ?thesis
    using handle_tool_call_content [of cbs "node_stream n" "(r, h, tr)"]
    by (simp add: process_node_def)
qed

lemma run_content:
  "process_agent_run cbs run (r, h, tr) = ((r', h', tr'), None) \<Longrightarrow>
     assistant_content r' =
       (if filter is_model_request_node (yielded run) = [] then assistant_content r
        else node_text (last (filter is_model_request_node (yielded run))))"
proof (induction run arbitrary: r h tr)
  case Nil
  then show ?case by (simp add: process_agent_run_Nil)
next
  case (Cons x run)
  show ?case
  proof (cases x)
    case (Raises e)
    then show ?thesis using Cons.prems by (simp add: process_agent_run_Raises split: if_splits)
  next
    case (Item n)
    obtain r1 h1 tr1 res where b: "process_node cbs n (r, h, tr) = ((r1, h1, tr1), res)"
      by (metis surj_pair)
    have res: "res = None"
      using Cons.prems Item b by (cases res) (auto simp: process_agent_run_Item)
    have rest: "process_agent_run cbs run (r1, h1, tr1) = ((r', h', tr'), None)"
      using Cons.prems Item b res by (simp add: process_agent_run_Item)
    note ih = Cons.IH [OF rest]
    note nd = process_node_content [OF b [unfolded res]]
    show ?thesis using ih nd Item by simp
  qed
qed

lemma run_content_items:
  "process_agent_run cbs (map Item ns) (r, h, tr) = ((r', h', tr'), None) \<Longrightarrow>
     assistant_content r' =
       (if filter is_model_request_node ns = [] then assistant_content r
        else node_text (last (filter is_model_request_node ns)))"
proof -
  have "yielded (map Item ns) = ns" by (induction ns) simp_all
  then show "process_agent_run cbs (map Item ns) (r, h, tr) = ((r', h', tr'), None) \<Longrightarrow>
     assistant_content r' =
       (if filter is_model_request_node ns = [] then assistant_content r
        else node_text (last (filter is_model_request_node ns)))"
    using run_content [of cbs "map Item ns" r h tr r' h' tr'] by simp
qed

lemma run_interrupted_content:
  assumes ns: "process_agent_run cbs (map Item ns) (r, h, tr) = ((r1, h1, tr1), None)"
    and later: "(\<exists>e rest. later = Raises e # rest)
       \<or> (\<exists>n rest. later = Item n # rest \<and> snd (process_node cbs n (r1, h1, tr1)) \<noteq> None)"
  shows "assistant_content (fst (fst (process_agent_run cbs (map Item ns @ later) (r, h, tr)))) =
       (if filter is_model_request_node ns = [] then assistant_content r
        else node_text (last (filter is_model_request_node ns)))"
proof -
  have cut: "process_agent_run cbs (map Item ns @ later) (r, h, tr) = process_agent_run cbs later (r1, h1, tr1)"
    by (rule process_agent_run_cut [OF ns])
  have "assistant_content (fst (fst (process_agent_run cbs later (r1, h1, tr1)))) = assistant_content r1"
  proof -
    from later consider (it) e rest where "later = Raises e # rest"
      | (nd) n rest where "later = Item n # rest" "snd (process_node cbs n (r1, h1, tr1)) \<noteq> None"
      by blast
    then show ?thesis
    proof cases
      case it
      then show ?thesis by (simp add: process_agent_run_Raises)
    next
      case nd
      obtain s e where b: "process_node cbs n (r1, h1, tr1) = (s, Some e)"
        using nd(2) by (metis prod.collapse option.exhaust)
      have "assistant_content (fst s) = assistant_content r1"
        using process_node_raises_content [OF nd(2)] b by simp
      then show ?thesis using nd(1) b by (simp add: process_agent_run_Item)
    qed
  qed
  then show ?thesis using cut run_content_items [OF ns] by simp
qed

text \<open>
  C6, as the code has it. A model-request node that is processed to the end of its
  stream sets \<open>assistant_content\<close> to the text of that node alone, whatever the field
  held before; a model-request node that an exception interrupts leaves the record as
  it found it. So after a run that raises nothing, \<open>assistant_content\<close> is the text of
  the last model-request node, and after a run that an exception ends, whether it comes
  from the run's iterator or from a node, it is the text of the last model-request node
  among the nodes processed without exception before; the initial text when there is
  none. The record that \<open>process_input\<close> returns holds that text.
\<close>

theorem last_model_request_wins:
  "(handle_model_request cbs src (r, h, tr) = ((r1, h1, tr1), None) \<longrightarrow>
      (\<exists>stream. src = Inr stream \<and> assistant_content r1 = concat (stream_deltas stream)))
   \<and> (snd (handle_model_request cbs src (r, h, tr)) \<noteq> None \<longrightarrow>
      fst (fst (handle_model_request cbs src (r, h, tr))) = r)
   \<and> (process_agent_run cbs run (r, h, tr) = ((r2, h2, tr2), None) \<longrightarrow>
      assistant_content r2 =
        (if filter is_model_request_node (yielded run) = [] then assistant_content r
         else node_text (last (filter is_model_request_node (yielded run)))))
   \<and> (process_agent_run cbs (map Item ns) (r, h, tr) = (st1, None)
        \<and> ((\<exists>e rest. later = Raises e # rest)
           \<or> (\<exists>n rest. later = Item n # rest \<and> snd (process_node cbs n st1) \<noteq> None)) \<longrightarrow>
      assistant_content (fst (fst (process_agent_run cbs (map Item ns @ later) (r, h, tr)))) =
        (if filter is_model_request_node ns = [] then assistant_content r
         else node_text (last (filter is_model_request_node ns))))
   \<and> (prepare_input_with_history dumps user_input history = Inr p
        \<and> agent self p = Inr run'
        \<and> snd (process_agent_run cbs run' (initial_response, [], [])) = None \<longrightarrow>
      (\<exists>r3 h3 tr3. process_input dumps self user_input history cbs = (Inr r3, h3, tr3)
         \<and> assistant_content r3 =
             (if filter is_model_request_node (yielded run') = [] then []
              else node_text (last (filter is_model_request_node (yielded run'))))))
   \<and> (prepare_input_with_history dumps user_input history = Inr p
        \<and> agent self p = Inr (map Item ms @ next)
        \<and> process_agent_run cbs (map Item ms) (initial_response, [], []) = (st2, None)
        \<and> ((\<exists>e rest. next = Raises e # rest)
           \<or> (\<exists>n rest. next = Item n # rest \<and> snd (process_node cbs n st2) \<noteq> None))
        \<and> fst (process_input dumps self user_input history cbs) = Inr r4 \<longrightarrow>
      assistant_content r4 =
        (if filter is_model_request_node ms = [] then []
         else node_text (last (filter is_model_request_node ms))))"
proof (intro conjI impI)
  assume "handle_model_request cbs src (r, h, tr) = ((r1, h1, tr1), None)"
  then show "\<exists>stream. src = Inr stream \<and> assistant_content r1 = concat (stream_deltas stream)"
    by (rule handle_model_request_ok)
next
  assume "snd (handle_model_request cbs src (r, h, tr)) \<noteq> None"
  then show "fst (fst (handle_model_request cbs src (r, h, tr))) = r"
    by (rule handle_model_request_raises)
next
  assume "process_agent_run cbs run (r, h, tr) = ((r2, h2, tr2), None)"
  then show "assistant_content r2 =
        (if filter is_model_request_node (yielded run) = [] then assistant_content r
         else node_text (last (filter is_model_request_node (yielded run))))"
    by (rule run_content)
next
  assume a: "process_agent_run cbs (map Item ns) (r, h, tr) = (st1, None)
        \<and> ((\<exists>e rest. later = Raises e # rest)
           \<or> (\<exists>n rest. later = Item n # rest \<and> snd (process_node cbs n st1) \<noteq> None))"
  obtain ra ha ta where st1: "st1 = (ra, ha, ta)" by (metis surj_pair)
  show "assistant_content (fst (fst (process_agent_run cbs (map Item ns @ later) (r, h, tr)))) =
        (if filter is_model_request_node ns = [] then assistant_content r
         else node_text (last (filter is_model_request_node ns)))"
    using run_interrupted_content [of cbs ns r h tr ra ha ta later] a st1 by simp
next
  assume a: "prepare_input_with_history dumps user_input history = Inr p
        \<and> agent self p = Inr run'
        \<and> snd (process_agent_run cbs run' (initial_response, [], [])) = None"
  obtain r3 h3 tr3 where b: "process_agent_run cbs run' (initial_response, [], []) = ((r3, h3, tr3), None)"
    using a by (metis prod.collapse)
  have "process_input dumps self user_input history cbs = (Inr r3, h3, tr3)"
    using a b by (simp add: process_input_returns)
  then show "\<exists>r3 h3 tr3. process_input dumps self user_input history cbs = (Inr r3, h3, tr3)
         \<and> assistant_content r3 =
             (if filter is_model_request_node (yielded run') = [] then []
              else node_text (last (filter is_model_request_node (yielded run'))))"
    using run_content [OF b] by (simp add: initial_response_def)
next
  assume a: "prepare_input_with_history dumps user_input history = Inr p
        \<and> agent self p = Inr (map Item ms @ next)
        \<and> process_agent_run cbs (map Item ms) (initial_response, [], []) = (st2, None)
        \<and> ((\<exists>e rest. next = Raises e # rest)
           \<or> (\<exists>n rest. next = Item n # rest \<and> snd (process_node cbs n st2) \<noteq> None))
        \<and> fst (process_input dumps self user_input history cbs) = Inr r4"
  obtain ra ha ta where st2: "st2 = (ra, ha, ta)" by (metis surj_pair)
  obtain rb hb tb res where fin: "process_agent_run cbs (map Item ms @ next) (initial_response, [], []) = ((rb, hb, tb), res)"
    by (metis surj_pair)
  have c: "assistant_content rb =
        (if filter is_model_request_node ms = [] then []
         else node_text (last (filter is_model_request_node ms)))"
    using run_interrupted_content [of cbs ms initial_response "[]" "[]" ra ha ta "next"] a st2 fin
    by (simp add: initial_response_def)
  have "assistant_content r4 = assistant_content rb"
    using a fin by (cases res) (auto simp: process_input_returns split: if_splits)
  then show "assistant_content r4 =
        (if filter is_model_request_node ms = [] then []
         else node_text (last (filter is_model_request_node ms)))"
    using c by simp
qed

theorem last_model_request_wins_witness:
  "process_agent_run no_callbacks
      [Item (ModelRequestNode (Inr [Item (text_event ''a'')])), Item (CallToolsNode (Inr [])),
       Item (ModelRequestNode (Inr [Item (text_event ''b''), Item (text_event ''c'')])), Item (OtherNode ''End'')]
      (initial_response, [], [])
     = ((initial_response\<lparr>assistant_content := ''bc''\<rparr>, [], []), None)
   \<and> process_input (\<lambda>h::string list. Inr ''[]'')
        \<lparr>agent = (\<lambda>p. Inr [Item (ModelRequestNode (Inr [Item (text_event ''a'')])), Item (CallToolsNode (Inr [])),
                        Item (ModelRequestNode (Inr [Item (text_event ''b''), Item (text_event ''c'')])),
                        Item (OtherNode ''End'')])\<rparr>
        ''hi'' None no_callbacks
     = (Inr (initial_response\<lparr>assistant_content := ''bc''\<rparr>), [], [])"
proof -
  let ?run = "[Item (ModelRequestNode (Inr [Item (text_event ''a'')])), Item (CallToolsNode (Inr [])),
       Item (ModelRequestNode (Inr [Item (text_event ''b''), Item (text_event ''c'')])), Item (OtherNode ''End'')]"
  let ?dumps = "\<lambda>h::string list. (Inr ''[]'' :: exn + string)"
  have run: "process_agent_run no_callbacks ?run (initial_response, [], [])
     = ((initial_response\<lparr>assistant_content := ''bc''\<rparr>, [], []), None)"
    by (simp add: process_agent_run_def process_node_def handle_model_request_def handle_tool_call_def
        coroutine_def model_event_def text_event_def invoke_def no_callbacks_def)
  have last_text: "node_text (last (filter is_model_request_node (yielded ?run))) = ''bc''"
    by (simp add: node_text_def stream_deltas_def delta_text_def text_event_def)
  have prep: "prepare_input_with_history ?dumps ''hi'' None = Inr ''hi''"
    by (simp add: prepare_input_with_history_def)
  have "\<exists>r3 h3 tr3. process_input ?dumps \<lparr>agent = (\<lambda>p. Inr ?run)\<rparr> ''hi'' None no_callbacks = (Inr r3, h3, tr3)
          \<and> assistant_content r3 = ''bc''"
    using last_model_request_wins [where dumps = ?dumps and user_input = "''hi''" and history = None
        and p = "''hi''" and self = "\<lparr>agent = (\<lambda>p. Inr ?run)\<rparr>" and cbs = no_callbacks and run' = ?run]
      run last_text prep
    by simp
  then show ?thesis
    using run prep by (simp add: process_input_def)
qed

text \<open>
  C6 as the spec states it, for every run, fails: when the stream of the last
  model-request node raises after the delta \<open>b\<close>, the final record holds the text
  \<open>a\<close> of the node before, not what the last node encountered had accumulated.
\<close>

theorem interrupted_node_counterexample:
  "process_input (\<lambda>h::string list. Inr ''[]'')
      \<lparr>agent = (\<lambda>p. Inr [Item (ModelRequestNode (Inr [Item (text_event ''a'')])),
                         Item (ModelRequestNode (Inr [Item (text_event ''b''),
                                                      Raises (PyException ''RuntimeError'' ''boom'')]))])\<rparr>
      ''hi'' None no_callbacks
     = (Inr \<lparr>assistant_content = ''a'', tool_calls = [], tool_results = [], error = Some ''boom''\<rparr>, [], [])
   \<and> stream_deltas [Item (text_event ''b''), Raises (PyException ''RuntimeError'' ''boom'')] = [''b'']"
  by (simp add: process_input_def prepare_input_with_history_def process_agent_run_def process_node_def
      handle_model_request_def coroutine_def leaving_coroutine_def model_event_def text_event_def
      invoke_def no_callbacks_def initial_response_def stream_deltas_def delta_text_def)

section \<open>The lists only grow\<close>

text \<open>
  Whatever relation between states is kept by the handling of one tool event and by a
  model-request node, and is reflexive and transitive, is kept from every point of a
  run to its end: from the start of a node or of the run, from the state that an event
  or a node leaves behind, whether it raised or not.
\<close>

lemma chain:
  assumes ev: "\<And>ev s. R s (fst (tool_event cbs ev s))"
    and mr: "\<And>src s. R s (fst (handle_model_request cbs src s))"
    and refl: "\<And>s. R s s"
    and trans: "\<And>a b c. R a b \<Longrightarrow> R b c \<Longrightarrow> R a c"
  shows chain_tool: "R st (fst (handle_tool_call cbs src st))"
    and chain_node: "R st (fst (process_node cbs n st))"
    and chain_run: "R st (fst (process_agent_run cbs run st))"
    and chain_after_event: "R (fst (tool_event cbs ev st)) (fst (handle_tool_call cbs (Inr (Item ev # later)) st))"
    and chain_after_node: "R (fst (process_node cbs n st)) (fst (process_agent_run cbs (Item n # rest) st))"
proof -
  have tool: "R s (fst (handle_tool_call cbs src s))" for src s
  proof (cases src)
    case (Inl e)
    then show ?thesis by (simp add: handle_tool_call_def coroutine_def refl)
  next
    case (Inr stream)
    have "R s (fst (for_each (tool_event cbs) stream s))"
      by (rule for_each_preserves [where R = R and body = "tool_event cbs", OF ev refl trans])
    then show ?thesis using Inr by (simp add: handle_tool_call_def coroutine_def)
  qed
  have node: "R s (fst (process_node cbs n s))" for n s
    by (simp add: process_node_def tool mr refl)
  have run: "R s (fst (process_agent_run cbs run s))" for run s
  proof -
    have "R s (fst (for_each (process_node cbs) run s))"
      by (rule for_each_preserves [where R = R and body = "process_node cbs", OF node refl trans])
    then show ?thesis by (simp add: process_agent_run_def coroutine_def)
  qed
  show "R st (fst (handle_tool_call cbs src st))" by (rule tool)
  show "R st (fst (process_node cbs n st))" by (rule node)
  show "R st (fst (process_agent_run cbs run st))" by (rule run)
  show "R (fst (tool_event cbs ev st)) (fst (handle_tool_call cbs (Inr (Item ev # later)) st))"
  proof -
    obtain s res where b: "tool_event cbs ev st = (s, res)" by (metis surj_pair)
    show ?thesis
      using b tool [of s "Inr later"] refl [of s]
      by (cases res) (simp_all add: handle_tool_call_Item)
  qed
  show "R (fst (process_node cbs n st)) (fst (process_agent_run cbs (Item n # rest) st))"
  proof -
    obtain s res where b: "process_node cbs n st = (s, res)" by (metis surj_pair)
    show ?thesis
      using b run [of s rest] refl [of s]
      by (cases res) (simp_all add: process_agent_run_Item)
  qed
qed

lemma chain_cut:
  assumes ev: "\<And>ev s. R s (fst (tool_event cbs ev s))"
    and mr: "\<And>src s. R s (fst (handle_model_request cbs src s))"
    and refl: "\<And>s. R s s"
    and trans: "\<And>a b c. R a b \<Longrightarrow> R b c \<Longrightarrow> R a c"
    and ns: "process_agent_run cbs (map Item ns) st = (st1, None)"
    and evs: "handle_tool_call cbs (Inr (map Item evs)) st1 = (st2, None)"
  shows "R (fst (tool_event cbs ev st2))
           (fst (process_agent_run cbs
                  (map Item ns @ Item (CallToolsNode (Inr (map Item evs @ Item ev # later))) # rest) st))"
proof -
  let ?node = "CallToolsNode (Inr (map Item evs @ Item ev # later))"
  have 1: "process_agent_run cbs (map Item ns @ Item ?node # rest) st = process_agent_run cbs (Item ?node # rest) st1"
    by (rule process_agent_run_cut [OF ns])
  have 2: "process_node cbs ?node st1 = handle_tool_call cbs (Inr (Item ev # later)) st2"
    using handle_tool_call_cut [OF evs] by (simp add: process_node_def)
  have a: "R (fst (tool_event cbs ev st2)) (fst (process_node cbs ?node st1))"
    using chain_after_event [where R = R and ev = ev and st = st2 and later = later, OF ev mr refl trans] 2 by simp
  have b: "R (fst (process_node cbs ?node st1)) (fst (process_agent_run cbs (Item ?node # rest) st1))"
    by (rule chain_after_node [where R = R, OF ev mr refl trans])
  show ?thesis using trans [OF a b] 1 by simp
qed

text \<open>The three relations: the lists of the record, the number of dicts, their contents.\<close>

lemma grows_step:
  "grows (fst s) (fst (fst (tool_event cbs ev s)))"
  "grows (fst s) (fst (fst (handle_model_request cbs src s)))"
  using tool_event_grows [of s cbs ev] handle_model_request_lists [of cbs src s]
  by (simp_all add: grows_def)

lemma invoke_store_length: "length (fst (fst (invoke cbs cb tag a (h, tr)))) = length h"
  by (simp add: invoke_def length_rewrite split: option.splits)

lemma invoke_store_quiet:
  "on_tool_call cbs = None \<or> never_rewrites cb \<Longrightarrow> fst (fst (invoke cbs cb tag a (h, tr))) = h"
  by (auto simp: invoke_def never_rewrites_def rewrite_id split: option.splits)

lemma tool_event_store_length:
  "length (fst (snd s)) \<le> length (fst (snd (fst (tool_event cbs ev s))))"
proof -
  obtain r h tr where s: "s = (r, h, tr)" by (metis surj_pair)
  have 1: "length (fst (fst (invoke cbs cb tag a (h @ [d], tr)))) = Suc (length h)" for cb tag a d
    using invoke_store_length [of cbs cb tag a "h @ [d]" tr] by simp
  have 2: "length (fst (fst (invoke cbs cb tag a (h, tr)))) = length h" for cb tag a
    by (rule invoke_store_length)
  show ?thesis
    unfolding s tool_event_def Let_def
    by (simp add: case_prod_unfold 1 2 split: option.splits part_obj.splits pyval.splits
        result_obj.splits payload.splits list.splits segment.splits)
qed

lemma tool_event_store_quiet:
  assumes "quiet cbs"
  shows "prefix (fst (snd s)) (fst (snd (fst (tool_event cbs ev s))))"
proof -
  obtain r h tr where s: "s = (r, h, tr)" by (metis surj_pair)
  have q1: "on_tool_call cbs = None \<or> never_rewrites (on_tool_call cbs)"
    and q2: "on_tool_call cbs = None \<or> never_rewrites (on_tool_result cbs)"
    using assms by (auto simp: quiet_def)
  have 1: "fst (fst (invoke cbs (on_tool_call cbs) tag a (h @ [d], tr))) = h @ [d]" for tag a d
    by (rule invoke_store_quiet [OF q1])
  have 2: "fst (fst (invoke cbs (on_tool_result cbs) tag a (h, tr))) = h" for tag a
    by (rule invoke_store_quiet [OF q2])
  show ?thesis
    unfolding s tool_event_def Let_def
    by (simp add: case_prod_unfold 1 2 split: option.splits part_obj.splits pyval.splits
        result_obj.splits payload.splits list.splits segment.splits)
qed

lemma model_event_store_length:
  "length (fst (snd (fst (model_event cbs ev s)))) = length (fst (snd s))"
proof -
  obtain c h tr where s: "s = (c, h, tr)" by (metis surj_pair)
  have 2: "length (fst (fst (invoke cbs cb tag a (h, tr)))) = length h" for cb tag a
    by (rule invoke_store_length)
  show ?thesis
    unfolding s model_event_def
    by (simp add: case_prod_unfold 2 split: option.splits delta_obj.splits pyval.splits)
qed

lemma model_event_store_quiet:
  assumes "quiet cbs"
  shows "fst (snd (fst (model_event cbs ev s))) = fst (snd s)"
proof -
  obtain c h tr where s: "s = (c, h, tr)" by (metis surj_pair)
  have q: "on_tool_call cbs = None \<or> never_rewrites (on_assistant_message cbs)"
    using assms by (auto simp: quiet_def)
  have 2: "fst (fst (invoke cbs (on_assistant_message cbs) tag a (h, tr))) = h" for tag a
    by (rule invoke_store_quiet [OF q])
  show ?thesis
    unfolding s model_event_def
    by (simp add: case_prod_unfold 2 split: option.splits delta_obj.splits pyval.splits)
qed

lemma handle_model_request_store:
  "fst (snd (fst (handle_model_request cbs src (r, h, tr)))) =
     (case src of Inl e \<Rightarrow> h | Inr stream \<Rightarrow> fst (snd (fst (for_each (model_event cbs) stream ([], h, tr)))))"
  by (auto simp: handle_model_request_def coroutine_def split: sum.splits prod.splits option.splits)

lemma handle_model_request_store_length:
  "length (fst (snd s)) \<le> length (fst (snd (fst (handle_model_request cbs src s))))"
proof -
  obtain r h tr where s: "s = (r, h, tr)" by (metis surj_pair)
  have "length (fst (snd (c, h, tr))) \<le> length (fst (snd (fst (for_each (model_event cbs) stream (c, h, tr)))))"
    for stream c
    by (rule for_each_preserves [where R = "\<lambda>a b. length (fst (snd a)) \<le> length (fst (snd b))"])
      (auto simp: model_event_store_length)
  then show ?thesis
    unfolding s handle_model_request_store by (auto split: sum.splits)
qed

lemma handle_model_request_store_quiet:
  assumes "quiet cbs"
  shows "prefix (fst (snd s)) (fst (snd (fst (handle_model_request cbs src s))))"
proof -
  obtain r h tr where s: "s = (r, h, tr)" by (metis surj_pair)
  have "fst (snd (fst (for_each (model_event cbs) stream (c, h, tr)))) = fst (snd (c, h, tr))"
    for stream c
    by (rule for_each_preserves [where R = "\<lambda>a b. fst (snd b) = fst (snd a)"])
      (auto simp: model_event_store_quiet [OF assms])
  then show ?thesis
    unfolding s handle_model_request_store by (auto split: sum.splits)
qed

lemma process_input_final:
  assumes "prepare_input_with_history dumps user_input history = Inr p"
    and "agent self p = Inr run"
    and "process_agent_run cbs run (initial_response, [], []) = ((r, h, tr), res)"
  shows "snd (process_input dumps self user_input history cbs) = (h, tr)"
    and "fst (process_input dumps self user_input history cbs) = Inr r' \<Longrightarrow>
           tool_calls r' = tool_calls r \<and> tool_results r' = tool_results r
           \<and> assistant_content r' = assistant_content r"
  using assms by (cases res; auto simp: process_input_returns split: if_splits)+

text \<open>
  C7, as the code has it. Handling one tool event, a whole tool-invocation node, a
  model-request node, any node and any run leaves \<open>tool_calls\<close> and
  \<open>tool_results\<close> unchanged or appends at their ends, whether or not the step
  raises; a model-request node leaves them unchanged. This holds from every point
  within a node and within a run: what the lists hold after any event, also one that
  raised, is a prefix of what they hold when the node, the run and the call end, and of
  what the returned record holds. The elements of \<open>tool_calls\<close> are the dicts
  themselves; dicts are never removed from the store, and when no callback changes a
  dict it has been handed, the contents of every dict stay as they were appended.
\<close>

theorem lists_grow:
  "grows r (fst (fst (tool_event cbs ev (r, h, tr))))
   \<and> tool_calls (fst (fst (handle_model_request cbs src (r, h, tr)))) = tool_calls r
   \<and> tool_results (fst (fst (handle_model_request cbs src (r, h, tr)))) = tool_results r
   \<and> grows r (fst (fst (handle_tool_call cbs src (r, h, tr))))
   \<and> grows r (fst (fst (process_node cbs n (r, h, tr))))
   \<and> grows r (fst (fst (process_agent_run cbs run (r, h, tr))))
   \<and> (handle_tool_call cbs (Inr (map Item evs)) st = (st1, None) \<longrightarrow>
        grows (fst st1) (fst (fst (handle_tool_call cbs (Inr (map Item evs @ later)) st)))
        \<and> grows (fst (fst (tool_event cbs ev st1)))
            (fst (fst (handle_tool_call cbs (Inr (map Item evs @ Item ev # later)) st))))
   \<and> (process_agent_run cbs (map Item ns) st = (st2, None) \<longrightarrow>
        grows (fst st2) (fst (fst (process_agent_run cbs (map Item ns @ rest) st)))
        \<and> grows (fst (fst (process_node cbs n st2)))
            (fst (fst (process_agent_run cbs (map Item ns @ Item n # rest) st))))
   \<and> (process_agent_run cbs (map Item ns) st = (st2, None)
        \<and> handle_tool_call cbs (Inr (map Item evs)) st2 = (st3, None) \<longrightarrow>
        grows (fst (fst (tool_event cbs ev st3)))
          (fst (fst (process_agent_run cbs
             (map Item ns @ Item (CallToolsNode (Inr (map Item evs @ Item ev # later))) # rest) st))))
   \<and> (prepare_input_with_history dumps user_input history = Inr p
        \<and> agent self p = Inr (map Item ns @ Item (CallToolsNode (Inr (map Item evs @ Item ev # later))) # rest)
        \<and> process_agent_run cbs (map Item ns) (initial_response, [], []) = (s2, None)
        \<and> handle_tool_call cbs (Inr (map Item evs)) s2 = (s3, None)
        \<and> fst (process_input dumps self user_input history cbs) = Inr r' \<longrightarrow>
        grows (fst (fst (tool_event cbs ev s3))) r')
   \<and> length h \<le> length (fst (snd (fst (process_agent_run cbs run (r, h, tr)))))
   \<and> (quiet cbs \<longrightarrow>
        prefix h (fst (snd (fst (tool_event cbs ev (r, h, tr)))))
        \<and> prefix h (fst (snd (fst (handle_model_request cbs src (r, h, tr)))))
        \<and> prefix h (fst (snd (fst (handle_tool_call cbs src (r, h, tr)))))
        \<and> prefix h (fst (snd (fst (process_node cbs n (r, h, tr)))))
        \<and> prefix h (fst (snd (fst (process_agent_run cbs run (r, h, tr))))))
   \<and> (quiet cbs
        \<and> prepare_input_with_history dumps user_input history = Inr p
        \<and> agent self p = Inr (map Item ns @ Item (CallToolsNode (Inr (map Item evs @ Item ev # later))) # rest)
        \<and> process_agent_run cbs (map Item ns) (initial_response, [], []) = (s2, None)
        \<and> handle_tool_call cbs (Inr (map Item evs)) s2 = (s3, None) \<longrightarrow>
        prefix (fst (snd (fst (tool_event cbs ev s3))))
          (fst (snd (process_input dumps self user_input history cbs))))"
proof -
  let ?run = "map Item ns @ Item (CallToolsNode (Inr (map Item evs @ Item ev # later))) # rest"
  define G where "G = (\<lambda>(a::state) (b::state). grows (fst a) (fst b))"
  define L where "L = (\<lambda>(a::state) (b::state). length (fst (snd a)) \<le> length (fst (snd b)))"
  define P where "P = (\<lambda>(a::state) (b::state). prefix (fst (snd a)) (fst (snd b)))"
  have G_ev: "\<And>ev s. G s (fst (tool_event cbs ev s))"
    and G_mr: "\<And>src s. G s (fst (handle_model_request cbs src s))"
    and G_refl: "\<And>s. G s s"
    and G_trans: "\<And>a b c. G a b \<Longrightarrow> G b c \<Longrightarrow> G a c"
    unfolding G_def by (auto intro: grows_step grows_refl elim: grows_trans)
  have L_ev: "\<And>ev s. L s (fst (tool_event cbs ev s))"
    and L_mr: "\<And>src s. L s (fst (handle_model_request cbs src s))"
    and L_refl: "\<And>s. L s s"
    and L_trans: "\<And>a b c. L a b \<Longrightarrow> L b c \<Longrightarrow> L a c"
    unfolding L_def by (auto intro: tool_event_store_length handle_model_request_store_length)
  have P_refl: "\<And>s. P s s"
    and P_trans: "\<And>a b c. P a b \<Longrightarrow> P b c \<Longrightarrow> P a c"
    unfolding P_def by auto
  have P_ev: "\<And>ev s. P s (fst (tool_event cbs ev s))"
    and P_mr: "\<And>src s. P s (fst (handle_model_request cbs src s))" if "quiet cbs"
    unfolding P_def using that by (auto intro: tool_event_store_quiet handle_model_request_store_quiet)
  note Gc = chain [where R = G and cbs = cbs, OF G_ev G_mr G_refl G_trans]
  have c1: "grows r (fst (fst (tool_event cbs ev (r, h, tr))))"
    using G_ev [where s = "(r, h, tr)" and ev = ev] by (simp add: G_def)
  have c2: "tool_calls (fst (fst (handle_model_request cbs src (r, h, tr)))) = tool_calls r
   \<and> tool_results (fst (fst (handle_model_request cbs src (r, h, tr)))) = tool_results r"
    using handle_model_request_lists [of cbs src "(r, h, tr)"] by simp
  have c3: "grows r (fst (fst (handle_tool_call cbs src (r, h, tr))))
   \<and> grows r (fst (fst (process_node cbs n (r, h, tr))))
   \<and> grows r (fst (fst (process_agent_run cbs run (r, h, tr))))"
    using Gc(1) [where st = "(r, h, tr)" and src = src] Gc(2) [where st = "(r, h, tr)" and n = n]
      Gc(3) [where st = "(r, h, tr)" and run = run]
    by (simp add: G_def)
  have c4: "grows (fst st1) (fst (fst (handle_tool_call cbs (Inr (map Item evs @ later)) st)))
        \<and> grows (fst (fst (tool_event cbs ev st1)))
            (fst (fst (handle_tool_call cbs (Inr (map Item evs @ Item ev # later)) st)))"
    if a: "handle_tool_call cbs (Inr (map Item evs)) st = (st1, None)"
    using handle_tool_call_cut [OF a, of later] handle_tool_call_cut [OF a, of "Item ev # later"]
      Gc(1) [where st = st1 and src = "Inr later"] Gc(4) [where ev = ev and st = st1 and later = later]
    by (simp add: G_def)
  have c5: "grows (fst st2) (fst (fst (process_agent_run cbs (map Item ns @ rest) st)))
        \<and> grows (fst (fst (process_node cbs n st2)))
            (fst (fst (process_agent_run cbs (map Item ns @ Item n # rest) st)))"
    if a: "process_agent_run cbs (map Item ns) st = (st2, None)"
    using process_agent_run_cut [OF a, of rest] process_agent_run_cut [OF a, of "Item n # rest"]
      Gc(3) [where st = st2 and run = rest] Gc(5) [where n = n and st = st2 and rest = rest]
    by (simp add: G_def)
  have c6: "grows (fst (fst (tool_event cbs ev st3))) (fst (fst (process_agent_run cbs ?run st)))"
    if a: "process_agent_run cbs (map Item ns) st = (st2, None)"
      and b: "handle_tool_call cbs (Inr (map Item evs)) st2 = (st3, None)"
    using chain_cut [where R = G and ev = ev and later = later and rest = rest, OF G_ev G_mr G_refl G_trans a b]
    by (simp add: G_def)
  have c7: "grows (fst (fst (tool_event cbs ev s3))) r'"
    if a: "prepare_input_with_history dumps user_input history = Inr p"
      and b: "agent self p = Inr ?run"
      and c: "process_agent_run cbs (map Item ns) (initial_response, [], []) = (s2, None)"
      and d: "handle_tool_call cbs (Inr (map Item evs)) s2 = (s3, None)"
      and e: "fst (process_input dumps self user_input history cbs) = Inr r'"
  proof -
    obtain rf hf tf res where fin: "process_agent_run cbs ?run (initial_response, [], []) = ((rf, hf, tf), res)"
      by (metis surj_pair)
    have "grows (fst (fst (tool_event cbs ev s3))) rf"
      using chain_cut [where R = G and ev = ev and later = later and rest = rest,
          OF G_ev G_mr G_refl G_trans c d] fin
      by (simp add: G_def)
    then show ?thesis
      using process_input_final(2) [OF a b fin e] by (simp add: grows_def)
  qed
  have c8: "length h \<le> length (fst (snd (fst (process_agent_run cbs run (r, h, tr)))))"
    using chain_run [where R = L and st = "(r, h, tr)" and run = run, OF L_ev L_mr L_refl L_trans] by (simp add: L_def)
  have c9: "prefix h (fst (snd (fst (tool_event cbs ev (r, h, tr)))))
        \<and> prefix h (fst (snd (fst (handle_model_request cbs src (r, h, tr)))))
        \<and> prefix h (fst (snd (fst (handle_tool_call cbs src (r, h, tr)))))
        \<and> prefix h (fst (snd (fst (process_node cbs n (r, h, tr)))))
        \<and> prefix h (fst (snd (fst (process_agent_run cbs run (r, h, tr)))))"
    if q: "quiet cbs"
    using P_ev [OF q, where s = "(r, h, tr)" and ev = ev] P_mr [OF q, where s = "(r, h, tr)" and src = src]
      chain_tool [where R = P and st = "(r, h, tr)" and src = src, OF P_ev [OF q] P_mr [OF q] P_refl P_trans]
      chain_node [where R = P and st = "(r, h, tr)" and n = n, OF P_ev [OF q] P_mr [OF q] P_refl P_trans]
      chain_run [where R = P and st = "(r, h, tr)" and run = run, OF P_ev [OF q] P_mr [OF q] P_refl P_trans]
    by (simp add: P_def)
  have c10: "prefix (fst (snd (fst (tool_event cbs ev s3))))
          (fst (snd (process_input dumps self user_input history cbs)))"
    if q: "quiet cbs"
      and a: "prepare_input_with_history dumps user_input history = Inr p"
      and b: "agent self p = Inr ?run"
      and c: "process_agent_run cbs (map Item ns) (initial_response, [], []) = (s2, None)"
      and d: "handle_tool_call cbs (Inr (map Item evs)) s2 = (s3, None)"
  proof -
    obtain rf hf tf res where fin: "process_agent_run cbs ?run (initial_response, [], []) = ((rf, hf, tf), res)"
      by (metis surj_pair)
    have "prefix (fst (snd (fst (tool_event cbs ev s3)))) hf"
      using chain_cut [where R = P and ev = ev and later = later and rest = rest,
          OF P_ev [OF q] P_mr [OF q] P_refl P_trans c d] fin
      by (simp add: P_def)
    then show ?thesis
      using process_input_final(1) [OF a b fin] by simp
  qed
  show ?thesis
    using c1 c2 c3 c4 c5 c6 c7 c8 c9 c10 by blast
qed

theorem lists_grow_witness:
  "quiet no_callbacks
   \<and> prepare_input_with_history (\<lambda>h::string list. Inr ''[]'') ''hi'' None = Inr ''hi''
   \<and> process_agent_run no_callbacks
        (map Item [CallToolsNode (Inr [Item (tool_result_event (CallToolResult [TextContent ''3'']))])])
        (initial_response, [], [])
      = ((initial_response\<lparr>tool_results := [''3'']\<rparr>, [], []), None)
   \<and> handle_tool_call no_callbacks (Inr (map Item [tool_call_event ''add'' (PStr ''{a: 2}'')]))
        (initial_response\<lparr>tool_results := [''3'']\<rparr>, [], [])
      = ((initial_response\<lparr>tool_calls := [0], tool_results := [''3'']\<rparr>,
          [\<lparr>tool_name = ''add'', args = ''{a: 2}''\<rparr>], []), None)
   \<and> fst (tool_event no_callbacks (tool_result_event (CallToolResult [TextContent ''4'']))
        (initial_response\<lparr>tool_calls := [0], tool_results := [''3'']\<rparr>,
         [\<lparr>tool_name = ''add'', args = ''{a: 2}''\<rparr>], []))
      = (initial_response\<lparr>tool_calls := [0], tool_results := [''3'', ''4'']\<rparr>,
         [\<lparr>tool_name = ''add'', args = ''{a: 2}''\<rparr>], [])
   \<and> process_input (\<lambda>h::string list. Inr ''[]'')
        \<lparr>agent = (\<lambda>p. Inr (map Item [CallToolsNode (Inr [Item (tool_result_event (CallToolResult [TextContent ''3'']))])]
            @ Item (CallToolsNode (Inr (map Item [tool_call_event ''add'' (PStr ''{a: 2}'')]
                @ Item (tool_result_event (CallToolResult [TextContent ''4'']))
                # [Raises (PyException ''RuntimeError'' ''boom'')]))) # []))\<rparr>
        ''hi'' None no_callbacks
      = (Inr \<lparr>assistant_content = [], tool_calls = [0], tool_results = [''3'', ''4''], error = Some ''boom''\<rparr>,
         [\<lparr>tool_name = ''add'', args = ''{a: 2}''\<rparr>], [])
   \<and> grows (initial_response\<lparr>tool_calls := [0], tool_results := [''3'', ''4'']\<rparr>)
        \<lparr>assistant_content = [], tool_calls = [0], tool_results = [''3'', ''4''], error = Some ''boom''\<rparr>
   \<and> prefix [\<lparr>tool_name = ''add'', args = ''{a: 2}''\<rparr>] [\<lparr>tool_name = ''add'', args = ''{a: 2}''\<rparr>]"
proof -
  let ?ns = "[CallToolsNode (Inr [Item (tool_result_event (CallToolResult [TextContent ''3'']))])]"
  let ?evs = "[tool_call_event ''add'' (PStr ''{a: 2}'')]"
  let ?ev = "tool_result_event (CallToolResult [TextContent ''4''])"
  let ?later = "[Raises (PyException ''RuntimeError'' ''boom'')]"
  let ?dumps = "\<lambda>h::string list. (Inr ''[]'' :: exn + string)"
  let ?self = "\<lparr>agent = (\<lambda>p. Inr (map Item ?ns @ Item (CallToolsNode (Inr (map Item ?evs @ Item ?ev # ?later))) # []))\<rparr>"
  let ?d = "\<lparr>tool_name = ''add'', args = ''{a: 2}''\<rparr>"
  let ?s2 = "(initial_response\<lparr>tool_results := [''3'']\<rparr>, [] :: store, [] :: cb_event list)"
  let ?s3 = "(initial_response\<lparr>tool_calls := [0], tool_results := [''3'']\<rparr>, [?d], [] :: cb_event list)"
  let ?r' = "\<lparr>assistant_content = [], tool_calls = [0], tool_results = [''3'', ''4''], error = Some ''boom''\<rparr>"
  have q: "quiet no_callbacks"
    by (simp add: quiet_def no_callbacks_def)
  have prep: "prepare_input_with_history ?dumps ''hi'' None = Inr ''hi''"
    by (simp add: prepare_input_with_history_def)
  have a: "process_agent_run no_callbacks (map Item ?ns) (initial_response, [], []) = (?s2, None)"
    by (simp add: process_agent_run_def process_node_def handle_tool_call_def coroutine_def tool_event_def
        tool_result_event_def invoke_def no_callbacks_def initial_response_def)
  have b: "handle_tool_call no_callbacks (Inr (map Item ?evs)) ?s2 = (?s3, None)"
    by (simp add: handle_tool_call_def coroutine_def tool_event_def tool_call_event_def invoke_def
        no_callbacks_def initial_response_def py_strip_def py_isspace_def)
  have c: "fst (tool_event no_callbacks ?ev ?s3)
      = (initial_response\<lparr>tool_calls := [0], tool_results := [''3'', ''4'']\<rparr>, [?d], [])"
    by (simp add: tool_event_def tool_result_event_def invoke_def no_callbacks_def initial_response_def)
  have whole: "process_input ?dumps ?self ''hi'' None no_callbacks = (Inr ?r', [?d], [])"
    by (simp add: process_input_def prepare_input_with_history_def process_agent_run_def process_node_def
        handle_tool_call_def coroutine_def leaving_coroutine_def tool_event_def tool_call_event_def
        tool_result_event_def invoke_def no_callbacks_def initial_response_def py_strip_def py_isspace_def)
  have "grows (fst (fst (tool_event no_callbacks ?ev ?s3))) ?r'
        \<and> prefix (fst (snd (fst (tool_event no_callbacks ?ev ?s3))))
             (fst (snd (process_input ?dumps ?self ''hi'' None no_callbacks)))"
    using lists_grow [where cbs = no_callbacks and dumps = ?dumps and user_input = "''hi''"
        and history = None and p = "''hi''" and self = ?self and ns = ?ns and evs = ?evs and ev = ?ev
        and later = ?later and rest = "[]" and ?s2.0 = ?s2 and ?s3.0 = ?s3 and r' = ?r']
      q prep a b whole
    by simp
  then show ?thesis using q prep a b c whole by simp
qed

text \<open>
  C7 as the spec states it fails for the contents of the entries: \<open>on_tool_call\<close>
  receives the very dict that was appended, and a callback that changes the dicts it
  was handed earlier rewrites an entry that \<open>tool_calls\<close> already holds. After the
  second event the first entry no longer has the arguments it was appended with.
\<close>

theorem rewritten_entry_counterexample:
  "fst (tool_event
        \<lparr>on_assistant_message = None,
         on_tool_call = Some (\<lambda>tr (i, d). \<lparr>raised = None, edit = (\<lambda>j c. if j < i then c\<lparr>args := ''changed''\<rparr> else c)\<rparr>),
         on_tool_result = None\<rparr>
        (tool_call_event ''add'' (PStr ''{a: 1}'')) (initial_response, [], []))
     = (initial_response\<lparr>tool_calls := [0]\<rparr>, [\<lparr>tool_name = ''add'', args = ''{a: 1}''\<rparr>],
        [ToolCall 0 \<lparr>tool_name = ''add'', args = ''{a: 1}''\<rparr>])
   \<and> fst (tool_event
        \<lparr>on_assistant_message = None,
         on_tool_call = Some (\<lambda>tr (i, d). \<lparr>raised = None, edit = (\<lambda>j c. if j < i then c\<lparr>args := ''changed''\<rparr> else c)\<rparr>),
         on_tool_result = None\<rparr>
        (tool_call_event ''mul'' (PStr ''{b: 2}''))
        (initial_response\<lparr>tool_calls := [0]\<rparr>, [\<lparr>tool_name = ''add'', args = ''{a: 1}''\<rparr>],
         [ToolCall 0 \<lparr>tool_name = ''add'', args = ''{a: 1}''\<rparr>]))
     = (initial_response\<lparr>tool_calls := [0, 1]\<rparr>,
        [\<lparr>tool_name = ''add'', args = ''changed''\<rparr>, \<lparr>tool_name = ''mul'', args = ''{b: 2}''\<rparr>],
        [ToolCall 0 \<lparr>tool_name = ''add'', args = ''{a: 1}''\<rparr>, ToolCall 1 \<lparr>tool_name = ''mul'', args = ''{b: 2}''\<rparr>])
   \<and> \<not> prefix [\<lparr>tool_name = ''add'', args = ''{a: 1}''\<rparr>]
         [\<lparr>tool_name = ''add'', args = ''changed''\<rparr>, \<lparr>tool_name = ''mul'', args = ''{b: 2}''\<rparr>]"
  by (simp add: tool_event_def tool_call_event_def invoke_def rewrite_def initial_response_def
      py_strip_def py_isspace_def Let_def)

section \<open>Exceptions in \<open>process_input\<close>\<close>






end
